theory Spec2Isabelle
  imports Complex_Main "HOL-Library.Word"
begin

section \<open>JavaScript strings\<close>

text \<open>
  A JavaScript string is a sequence of 16-bit UTF-16 code units; \<open>charCodeAt\<close> reads one
  unit. A string literal of the source is written \<open>js ''...''\<close>.
\<close>

type_synonym jsstring = "16 word list"

definition js :: "string \<Rightarrow> jsstring" where
  "js s = map of_char s"

text \<open>\<open>str.replace('.', '=')\<close>: a string pattern replaces the first occurrence only.\<close>

fun replace_first_dot :: "jsstring \<Rightarrow> jsstring" where
  "replace_first_dot [] = []"
| "replace_first_dot (c # cs) = (if c = 46 then 61 # cs else c # replace_first_dot cs)"

text \<open>
  \<open>str.replace(/={1,2}$/, '.')\<close>: the leftmost position at which one or two \<open>=\<close> reach
  the end of the string is replaced by a single \<open>.\<close>.
\<close>

fun replace_padding :: "jsstring \<Rightarrow> jsstring" where
  "replace_padding [] = []"
| "replace_padding (c # cs) =
     (if c # cs = [61] \<or> c # cs = [61, 61] then [46] else c # replace_padding cs)"

section \<open>JSON.stringify\<close>

text \<open>
  The values \<open>JSON.stringify\<close> is applied to: plain data, an object being the list of its
  own properties in insertion order. Numbers are rationals (every finite double is one);
  their text, \<open>Number::toString\<close>, is a parameter \<open>num\<close> of the serializer.
\<close>

datatype json =
    JUndefined
  | JNull
  | JBool bool
  | JNum rat
  | JStr jsstring
  | JArr "json list"
  | JObj "(jsstring \<times> json) list"

type_synonym object = "(jsstring \<times> json) list"

definition hex_digit :: "nat \<Rightarrow> 16 word" where
  "hex_digit n = (if n < 10 then of_nat (48 + n) else of_nat (87 + n))"

definition UnicodeEscape :: "16 word \<Rightarrow> jsstring" where
  "UnicodeEscape c =
     [92, 117, hex_digit (unat c div 4096), hex_digit (unat c div 256 mod 16),
      hex_digit (unat c div 16 mod 16), hex_digit (unat c mod 16)]"

definition is_lead_surrogate :: "16 word \<Rightarrow> bool" where
  "is_lead_surrogate c = (0xD800 \<le> c \<and> c \<le> 0xDBFF)"

definition is_trail_surrogate :: "16 word \<Rightarrow> bool" where
  "is_trail_surrogate c = (0xDC00 \<le> c \<and> c \<le> 0xDFFF)"

fun quote_units :: "jsstring \<Rightarrow> jsstring" where
  "quote_units [] = []"
| "quote_units (c # cs) =
     (if c = 8 then [92, 98] @ quote_units cs
      else if c = 9 then [92, 116] @ quote_units cs
      else if c = 10 then [92, 110] @ quote_units cs
      else if c = 12 then [92, 102] @ quote_units cs
      else if c = 13 then [92, 114] @ quote_units cs
      else if c = 34 then [92, 34] @ quote_units cs
      else if c = 92 then [92, 92] @ quote_units cs
      else if c < 32 then UnicodeEscape c @ quote_units cs
      else if is_lead_surrogate c then
        (case cs of
           [] \<Rightarrow> UnicodeEscape c
         | d # ds \<Rightarrow>
             if is_trail_surrogate d then c # d # quote_units ds
             else UnicodeEscape c @ quote_units cs)
      else if is_trail_surrogate c then UnicodeEscape c @ quote_units cs
      else c # quote_units cs)"

definition QuoteJSONString :: "jsstring \<Rightarrow> jsstring" where
  "QuoteJSONString s = [34] @ quote_units s @ [34]"

fun join_comma :: "jsstring list \<Rightarrow> jsstring" where
  "join_comma [] = []"
| "join_comma [x] = x"
| "join_comma (x # y # r) = x @ [44] @ join_comma (y # r)"

text \<open>
  \<open>SerializeJSONProperty\<close>: \<open>undefined\<close> has no text (\<open>None\<close>); an array prints it as
  \<open>null\<close>, an object leaves the property out.
\<close>

fun ser :: "(rat \<Rightarrow> jsstring) \<Rightarrow> json \<Rightarrow> jsstring option"
  and ser_elems :: "(rat \<Rightarrow> jsstring) \<Rightarrow> json list \<Rightarrow> jsstring list"
  and ser_props :: "(rat \<Rightarrow> jsstring) \<Rightarrow> (jsstring \<times> json) list \<Rightarrow> jsstring list"
where
  "ser num JUndefined = None"
| "ser num JNull = Some (js ''null'')"
| "ser num (JBool b) = Some (if b then js ''true'' else js ''false'')"
| "ser num (JNum q) = Some (num q)"
| "ser num (JStr s) = Some (QuoteJSONString s)"
| "ser num (JArr vs) = Some ([91] @ join_comma (ser_elems num vs) @ [93])"
| "ser num (JObj ps) = Some ([123] @ join_comma (ser_props num ps) @ [125])"
| "ser_elems num [] = []"
| "ser_elems num (v # vs) =
     (case ser num v of None \<Rightarrow> js ''null'' | Some s \<Rightarrow> s) # ser_elems num vs"
| "ser_props num [] = []"
| "ser_props num ((k, v) # ps) =
     (case ser num v of
        None \<Rightarrow> ser_props num ps
      | Some s \<Rightarrow> (QuoteJSONString k @ [58] @ s) # ser_props num ps)"

text \<open>\<open>JSON.stringify(o)\<close> for an object \<open>o\<close>.\<close>

definition JSON_stringify :: "(rat \<Rightarrow> jsstring) \<Rightarrow> object \<Rightarrow> jsstring" where
  "JSON_stringify num ps = [123] @ join_comma (ser_props num ps) @ [125]"

text \<open>Property read \<open>o.k\<close> and \<open>o?.k\<close> on data, \<open>delete o.k\<close>, and truthiness.\<close>

definition get_prop :: "object \<Rightarrow> jsstring \<Rightarrow> json" where
  "get_prop ps k = (case map_of ps k of None \<Rightarrow> JUndefined | Some v \<Rightarrow> v)"

definition opt_chain :: "json \<Rightarrow> jsstring \<Rightarrow> json" where
  "opt_chain v k = (case v of JObj ps \<Rightarrow> get_prop ps k | _ \<Rightarrow> JUndefined)"

definition delete_prop :: "object \<Rightarrow> jsstring \<Rightarrow> object" where
  "delete_prop ps k = filter (\<lambda>p. fst p \<noteq> k) ps"

fun truthy :: "json \<Rightarrow> bool" where
  "truthy JUndefined = False"
| "truthy JNull = False"
| "truthy (JBool b) = b"
| "truthy (JNum q) = (q \<noteq> 0)"
| "truthy (JStr s) = (s \<noteq> [])"
| "truthy (JArr vs) = True"
| "truthy (JObj ps) = True"

text \<open>\<open>a || b\<close> where \<open>a\<close> is a string or \<open>undefined\<close>: both \<open>undefined\<close> and the empty
  string are falsy.\<close>

definition str_or :: "jsstring option \<Rightarrow> jsstring \<Rightarrow> jsstring" where
  "str_or a b = (case a of None \<Rightarrow> b | Some s \<Rightarrow> if s = [] then b else s)"

section \<open>Base64 (packages/utils/src/string.ts)\<close>

datatype js_exception = InvalidCharacterError | RangeError | TypeError

text \<open>
  \<open>SentryError\<close> with its message; when it wraps a caught exception the message goes on
  with \<open>Got error:\<close> and that exception, kept here as the second component.
\<close>

datatype sentry_error = SentryError jsstring "js_exception option"

text \<open>What \<open>getGlobalObject()\<close> offers: \<open>'btoa' in g\<close>, \<open>'atob' in g\<close>, \<open>'Buffer' in g\<close>.\<close>

record global_object =
  has_btoa :: bool
  has_atob :: bool
  has_Buffer :: bool

definition is_b64 :: "16 word \<Rightarrow> bool" where
  "is_b64 c = ((65 \<le> c \<and> c \<le> 90) \<or> (97 \<le> c \<and> c \<le> 122) \<or> (48 \<le> c \<and> c \<le> 57)
               \<or> c = 43 \<or> c = 47)"

text \<open>\<open>BASE64_REGEX.test\<close>: groups of four alphabet characters, the last group possibly
  ending in one, two or three \<open>=\<close>.\<close>

fun BASE64_REGEX_test :: "jsstring \<Rightarrow> bool" where
  "BASE64_REGEX_test [] = True"
| "BASE64_REGEX_test [a, b, c, d] =
     (is_b64 a \<and>
       ((is_b64 b \<and> ((is_b64 c \<and> (is_b64 d \<or> d = 61)) \<or> (c = 61 \<and> d = 61)))
        \<or> (b = 61 \<and> c = 61 \<and> d = 61)))"
| "BASE64_REGEX_test (a # b # c # d # rest) =
     (is_b64 a \<and> is_b64 b \<and> is_b64 c \<and> is_b64 d \<and> BASE64_REGEX_test rest)"
| "BASE64_REGEX_test _ = False"

definition b64_digit :: "nat \<Rightarrow> 16 word" where
  "b64_digit n =
     (if n < 26 then of_nat (65 + n)
      else if n < 52 then of_nat (71 + n)
      else if n < 62 then of_nat (n - 4)
      else if n = 62 then 43 else 47)"

definition b64_value :: "16 word \<Rightarrow> nat" where
  "b64_value c =
     (if 65 \<le> c \<and> c \<le> 90 then unat c - 65
      else if 97 \<le> c \<and> c \<le> 122 then unat c - 71
      else if 48 \<le> c \<and> c \<le> 57 then unat c + 4
      else if c = 43 \<or> c = 45 then 62 else 63)"

text \<open>Three bytes give four digits; one or two left-over bytes are padded with \<open>=\<close>.\<close>

fun base64_encode :: "nat list \<Rightarrow> jsstring" where
  "base64_encode [] = []"
| "base64_encode [a] = [b64_digit (a div 4), b64_digit (a mod 4 * 16), 61, 61]"
| "base64_encode [a, b] =
     [b64_digit (a div 4), b64_digit (a mod 4 * 16 + b div 16), b64_digit (b mod 16 * 4), 61]"
| "base64_encode (a # b # c # rest) =
     [b64_digit (a div 4), b64_digit (a mod 4 * 16 + b div 16),
      b64_digit (b mod 16 * 4 + c div 64), b64_digit (c mod 64)] @ base64_encode rest"

text \<open>Four digits give three bytes; the spare bits of a shorter last group are dropped.\<close>

fun base64_decode :: "nat list \<Rightarrow> nat list" where
  "base64_decode (a # b # c # d # rest) =
     [a * 4 + b div 16, b mod 16 * 16 + c div 4, c mod 4 * 64 + d] @ base64_decode rest"
| "base64_decode [a, b, c] = [a * 4 + b div 16, b mod 16 * 16 + c div 4]"
| "base64_decode [a, b] = [a * 4 + b div 16]"
| "base64_decode _ = []"

text \<open>\<open>btoa\<close> rejects a string with a code unit above 255.\<close>

definition btoa :: "jsstring \<Rightarrow> js_exception + jsstring" where
  "btoa s =
     (if list_ex (\<lambda>c. 255 < c) s then Inl InvalidCharacterError
      else Inr (base64_encode (map unat s)))"

text \<open>\<open>atob\<close> (forgiving-base64 decode): white space is dropped, then one or two trailing
  \<open>=\<close> of a length divisible by four; a length of 1 modulo 4 or a character outside the
  alphabet fails.\<close>

definition is_ascii_whitespace :: "16 word \<Rightarrow> bool" where
  "is_ascii_whitespace c = (c = 9 \<or> c = 10 \<or> c = 12 \<or> c = 13 \<or> c = 32)"

definition strip_padding :: "jsstring \<Rightarrow> jsstring" where
  "strip_padding d =
     (if d \<noteq> [] \<and> last d = 61 then
        (if butlast d \<noteq> [] \<and> last (butlast d) = 61 then butlast (butlast d) else butlast d)
      else d)"

definition atob :: "jsstring \<Rightarrow> js_exception + jsstring" where
  "atob s =
     (let d = filter (\<lambda>c. \<not> is_ascii_whitespace c) s;
          d = (if length d mod 4 = 0 then strip_padding d else d)
      in if length d mod 4 = 1 \<or> \<not> list_all is_b64 d then Inl InvalidCharacterError
         else Inr (map of_nat (base64_decode (map b64_value d))))"

text \<open>\<open>unicodeToBinary\<close>: the bytes of the \<open>Uint16Array\<close>, low byte first, one character
  per byte. The limit of an engine on the number of arguments of \<open>String.fromCharCode\<close>
  is not modelled.\<close>

definition unicodeToBinary :: "jsstring \<Rightarrow> jsstring" where
  "unicodeToBinary unicodeString =
     concat (map (\<lambda>c. [of_nat (unat c mod 256), of_nat (unat c div 256)]) unicodeString)"

fun pair_units :: "nat list \<Rightarrow> jsstring" where
  "pair_units (lo # hi # r) = of_nat (lo + 256 * hi) # pair_units r"
| "pair_units _ = []"

text \<open>\<open>binaryToUnicode\<close>: each character is stored into a \<open>Uint8Array\<close> (modulo 256); a
  \<open>Uint16Array\<close> over an odd number of bytes is a \<open>RangeError\<close>.\<close>

definition binaryToUnicode :: "jsstring \<Rightarrow> js_exception + jsstring" where
  "binaryToUnicode binaryString =
     (let bytes = map (\<lambda>c. unat c mod 256) binaryString
      in if odd (length bytes) then Inl RangeError else Inr (pair_units bytes))"

text \<open>Node: \<open>Buffer.from(s, 'utf16le').toString('base64')\<close> and
  \<open>Buffer.from(s, 'base64').toString('utf16le')\<close>. The decoder stops at the first \<open>=\<close>,
  skips what is no digit (it also reads \<open>-\<close> and \<open>_\<close>), and \<open>toString\<close> drops an odd last
  byte.\<close>

definition Buffer_utf16le_to_base64 :: "jsstring \<Rightarrow> jsstring" where
  "Buffer_utf16le_to_base64 s =
     base64_encode (concat (map (\<lambda>c. [unat c mod 256, unat c div 256]) s))"

definition Buffer_base64_to_utf16le :: "jsstring \<Rightarrow> jsstring" where
  "Buffer_base64_to_utf16le s =
     pair_units (base64_decode (map b64_value
       (filter (\<lambda>c. is_b64 c \<or> c = 45 \<or> c = 95) (takeWhile (\<lambda>c. c \<noteq> 61) s))))"

text \<open>The bytes of a text in UTF-16, low byte first: what either encoder turns into
  base64.\<close>

definition bytes_of :: "jsstring \<Rightarrow> nat list" where
  "bytes_of s = concat (map (\<lambda>c. [unat c mod 256, unat c div 256]) s)"

definition errMsg_text :: "jsstring \<Rightarrow> jsstring \<Rightarrow> jsstring" where
  "errMsg_text prefix s = prefix @ (if length s > 256 then take 256 s @ js ''...'' else s)"

definition base64ToUnicode :: "global_object \<Rightarrow> jsstring \<Rightarrow> sentry_error + jsstring" where
  "base64ToUnicode g base64String =
     (if \<not> BASE64_REGEX_test base64String then
        Inl (SentryError
          (js ''Unable to convert from base64. Input either isn't a string or isn't valid base64.'')
          None)
      else
        let errMsg = errMsg_text (js ''Unable to convert string from base64: '') base64String
        in if has_atob g then
             (case atob base64String of
                Inl err \<Rightarrow> Inl (SentryError errMsg (Some err))
              | Inr b \<Rightarrow>
                  (case binaryToUnicode b of
                     Inl err \<Rightarrow> Inl (SentryError errMsg (Some err))
                   | Inr u \<Rightarrow> Inr u))
           else if has_Buffer g then Inr (Buffer_base64_to_utf16le base64String)
           else Inl (SentryError errMsg None))"

definition unicodeToBase64 :: "global_object \<Rightarrow> jsstring \<Rightarrow> sentry_error + jsstring" where
  "unicodeToBase64 g unicodeString =
     (let errMsg = errMsg_text (js ''Unable to convert string to base64: '') unicodeString
      in if has_btoa g then
           (case btoa (unicodeToBinary unicodeString) of
              Inl err \<Rightarrow> Inl (SentryError errMsg (Some err))
            | Inr b \<Rightarrow> Inr b)
         else if has_Buffer g then Inr (Buffer_utf16le_to_base64 unicodeString)
         else Inl (SentryError errMsg None))"

section \<open>Spans, transactions and the hub\<close>

text \<open>
  Modelled from the spec: the class \<open>Span\<close> of \<open>./span\<close>, which \<open>Transaction\<close> extends, is
  not among the sources. Its fields are those of the spec's data model; timestamps are
  rationals, \<open>undefined\<close> is \<open>None\<close>.
\<close>

record span =
  traceId :: jsstring
  spanId :: jsstring
  parentSpanId :: "jsstring option"
  sampled :: "bool option"
  op :: "jsstring option"
  description :: "jsstring option"
  status :: "jsstring option"
  tags :: "(jsstring \<times> jsstring) list"
  startTimestamp :: rat
  endTimestamp :: "rat option"

text \<open>
  The recorder holds references: one of them is the transaction itself (\<open>This\<close>), which
  \<open>s !== this\<close> tells from the others.
\<close>

datatype recorded = This | Child span

record trace_context =
  tc_trace_id :: jsstring
  tc_span_id :: jsstring
  tc_parent_span_id :: "jsstring option"
  tc_op :: "jsstring option"
  tc_description :: "jsstring option"
  tc_status :: "jsstring option"

text \<open>The event \<open>finish\<close> assembles and hands to \<open>captureEvent\<close>.\<close>

record transaction_event =
  ev_contexts_trace :: trace_context
  ev_spans :: "recorded list"
  ev_start_timestamp :: rat
  ev_tags :: "(jsstring \<times> jsstring) list"
  ev_timestamp :: "rat option"
  ev_tracestate :: jsstring
  ev_transaction :: jsstring
  ev_type :: jsstring
  ev_measurements :: "(jsstring \<times> rat) list option"

record transaction_context =
  ctx_name :: "jsstring option"
  ctx_traceId :: "jsstring option"
  ctx_spanId :: "jsstring option"
  ctx_parentSpanId :: "jsstring option"
  ctx_sampled :: "bool option"
  ctx_parentSampled :: "bool option"
  ctx_op :: "jsstring option"
  ctx_description :: "jsstring option"
  ctx_status :: "jsstring option"
  ctx_tags :: "(jsstring \<times> jsstring) list option"
  ctx_startTimestamp :: "rat option"
  ctx_endTimestamp :: "rat option"
  ctx_trimEnd :: "bool option"
  ctx_tracestate :: "jsstring option"

text \<open>What a decision function or a fixed rate may hold: a number, a boolean, \<open>NaN\<close>, or
  something else.\<close>

datatype sample_value = Number rat | Boolean bool | NaN | NotNumeric

record sample_context =
  sc_transactionContext :: transaction_context
  sc_parentSampled :: "bool option"
  sc_environment :: object

record dsn =
  user :: jsstring

record options =
  environment :: "jsstring option"
  release :: "jsstring option"
  tracesSampleRate :: "sample_value option"
  tracesSampler :: "(sample_context \<Rightarrow> sample_value) option"

record client =
  getDsn :: "dsn option"
  getOptions :: "options option"

text \<open>
  Modelled from the spec: the hub of \<open>@sentry/hub\<close> is not among the sources. It holds the
  current client; \<open>captureEvent\<close> hands an event to the client's capture operation and
  returns the identifier that yields, or none. \<open>captured\<close> lists the events handed over so
  far, \<open>event_ids\<close> the identifier the n-th of them yields.
\<close>

record hub =
  getClient :: "client option"
  captured :: "transaction_event list"
  event_ids :: "nat \<Rightarrow> jsstring option"

definition captureEvent :: "hub \<Rightarrow> transaction_event \<Rightarrow> jsstring option \<times> hub" where
  "captureEvent h ev = (event_ids h (length (captured h)), h\<lparr>captured := captured h @ [ev]\<rparr>)"

text \<open>
  \<open>Transaction extends SpanClass\<close>. The private fields \<open>_measurements\<close>, \<open>_hub\<close> and
  \<open>_trimEnd\<close> are written without the underscore.
\<close>

record transaction = span +
  name :: jsstring
  tracestate :: jsstring
  measurements :: "(jsstring \<times> rat) list"
  hub :: hub
  trimEnd :: "bool option"
  spanRecorder :: "recorded list option"

text \<open>Modelled from the spec: \<open>Span.finish\<close> sets \<open>endTimestamp\<close>, by default to now.\<close>

definition Span_finish :: "rat \<Rightarrow> transaction \<Rightarrow> rat option \<Rightarrow> transaction" where
  "Span_finish now t e = t\<lparr>endTimestamp := Some (case e of None \<Rightarrow> now | Some x \<Rightarrow> x)\<rparr>"

text \<open>Modelled from the spec: \<open>Span.getTraceContext\<close> gives the trace id, span id, parent
  span id, operation, description and status.\<close>

definition getTraceContext :: "transaction \<Rightarrow> trace_context" where
  "getTraceContext t =
     \<lparr>tc_trace_id = traceId t, tc_span_id = spanId t, tc_parent_span_id = parentSpanId t,
      tc_op = op t, tc_description = description t, tc_status = status t\<rparr>"

text \<open>A timestamp in a condition: \<open>undefined\<close> and \<open>0\<close> are falsy.\<close>

definition truthy_ts :: "rat option \<Rightarrow> bool" where
  "truthy_ts e = (case e of None \<Rightarrow> False | Some x \<Rightarrow> x \<noteq> 0)"

text \<open>\<open>a > b\<close> on timestamps: false when either is \<open>undefined\<close>.\<close>

definition ts_gt :: "rat option \<Rightarrow> rat option \<Rightarrow> bool" where
  "ts_gt a b = (case a of None \<Rightarrow> False | Some x \<Rightarrow> (case b of None \<Rightarrow> False | Some y \<Rightarrow> y < x))"

text \<open>\<open>s.endTimestamp\<close> for a recorded reference \<open>s\<close>, read while the transaction is \<open>t\<close>.\<close>

definition end_of :: "transaction \<Rightarrow> recorded \<Rightarrow> rat option" where
  "end_of t s = (case s of This \<Rightarrow> endTimestamp t | Child c \<Rightarrow> endTimestamp c)"

text \<open>The callback of \<open>finishedSpans.reduce\<close>.\<close>

definition later_span :: "transaction \<Rightarrow> recorded \<Rightarrow> recorded \<Rightarrow> recorded" where
  "later_span t prev current =
     (if truthy_ts (end_of t prev) \<and> truthy_ts (end_of t current) then
        (if ts_gt (end_of t prev) (end_of t current) then prev else current)
      else prev)"

definition finishedSpans :: "transaction \<Rightarrow> recorded list" where
  "finishedSpans t =
     (case spanRecorder t of
        None \<Rightarrow> []
      | Some spans \<Rightarrow> filter (\<lambda>s. s \<noteq> This \<and> truthy_ts (end_of t s)) spans)"

text \<open>
  \<open>if (this._trimEnd && finishedSpans.length > 0)\<close>: \<open>reduce\<close> without an initial value
  starts from the first element, which the length test guards.
\<close>

definition trim :: "transaction \<Rightarrow> recorded list \<Rightarrow> transaction" where
  "trim t fs =
     (case fs of
        [] \<Rightarrow> t
      | x # r \<Rightarrow>
          if trimEnd t = Some True
          then t\<lparr>endTimestamp := end_of t (foldl (later_span t) x r)\<rparr>
          else t)"

definition transactionEvent :: "transaction \<Rightarrow> recorded list \<Rightarrow> transaction_event" where
  "transactionEvent t fs =
     \<lparr>ev_contexts_trace = getTraceContext t,
      ev_spans = fs,
      ev_start_timestamp = startTimestamp t,
      ev_tags = tags t,
      ev_timestamp = endTimestamp t,
      ev_tracestate = tracestate t,
      ev_transaction = name t,
      ev_type = js ''transaction'',
      ev_measurements = (if length (measurements t) > 0 then Some (measurements t) else None)\<rparr>"

text \<open>\<open>Transaction.finish(endTimestamp?)\<close>: the returned identifier, and the transaction
  (with its hub) afterwards. \<open>now\<close> is the clock.\<close>

definition finish :: "rat \<Rightarrow> transaction \<Rightarrow> rat option \<Rightarrow> jsstring option \<times> transaction" where
  "finish now t e =
     (if endTimestamp t \<noteq> None then (None, t)
      else
        let t1 = (if name t = [] then t\<lparr>name := js ''<unlabeled transaction>''\<rparr> else t);
            t2 = Span_finish now t1 e
        in if sampled t2 \<noteq> Some True then (None, t2)
           else
             let fs = finishedSpans t2;
                 t3 = trim t2 fs;
                 (r, h) = captureEvent (hub t3) (transactionEvent t3 fs)
             in (r, t3\<lparr>hub := h\<rparr>))"

text \<open>The \<open>dataStr\<close> of \<open>_getNewTracestate\<close>, for the trace id \<open>tid\<close> of the transaction.\<close>

definition dataStr :: "(rat \<Rightarrow> jsstring) \<Rightarrow> client \<Rightarrow> dsn \<Rightarrow> jsstring \<Rightarrow> jsstring" where
  "dataStr num client d tid =
     (let env = (case getOptions client of None \<Rightarrow> None | Some os \<Rightarrow> environment os);
          rel = (case getOptions client of None \<Rightarrow> None | Some os \<Rightarrow> release os)
      in JSON_stringify num
           [(js ''trace_id'', JStr tid),
            (js ''public_key'', JStr (user d)),
            (js ''environment'', JStr (str_or env (js ''no environment specified''))),
            (js ''release'', JStr (str_or rel (js ''no release specified'')))])"

text \<open>\<open>Transaction._getNewTracestate()\<close>: \<open>None\<close> is \<open>undefined\<close>.\<close>

definition getNewTracestate ::
  "global_object \<Rightarrow> (rat \<Rightarrow> jsstring) \<Rightarrow> hub \<Rightarrow> jsstring \<Rightarrow> jsstring option" where
  "getNewTracestate g num h tid =
     (case getClient h of
        None \<Rightarrow> None
      | Some client \<Rightarrow>
          (case getDsn client of
             None \<Rightarrow> None
           | Some d \<Rightarrow>
               (case unicodeToBase64 g (dataStr num client d tid) of
                  Inl err \<Rightarrow> Some []
                | Inr b \<Rightarrow> Some (replace_padding b))))"

text \<open>
  The constructor. Modelled from the spec: \<open>super(transactionContext)\<close> copies the span
  fields of the context; \<open>fresh_trace\<close> and \<open>fresh_span\<close> are the identifiers generated
  when the context gives none. \<open>given\<close> is the \<open>hub\<close> argument, \<open>current\<close> what
  \<open>getCurrentHub()\<close> returns.
\<close>

definition Span_new :: "rat \<Rightarrow> jsstring \<Rightarrow> jsstring \<Rightarrow> transaction_context \<Rightarrow> span" where
  "Span_new now fresh_trace fresh_span c =
     \<lparr>traceId = (case ctx_traceId c of None \<Rightarrow> fresh_trace | Some i \<Rightarrow> i),
      spanId = (case ctx_spanId c of None \<Rightarrow> fresh_span | Some i \<Rightarrow> i),
      parentSpanId = ctx_parentSpanId c,
      sampled = ctx_sampled c,
      op = ctx_op c,
      description = ctx_description c,
      status = ctx_status c,
      tags = (case ctx_tags c of None \<Rightarrow> [] | Some ts \<Rightarrow> ts),
      startTimestamp = (case ctx_startTimestamp c of None \<Rightarrow> now | Some x \<Rightarrow> x),
      endTimestamp = ctx_endTimestamp c\<rparr>"

definition Transaction_new ::
  "global_object \<Rightarrow> (rat \<Rightarrow> jsstring) \<Rightarrow> rat \<Rightarrow> jsstring \<Rightarrow> jsstring \<Rightarrow>
   transaction_context \<Rightarrow> hub option \<Rightarrow> hub \<Rightarrow> transaction" where
  "Transaction_new g num now fresh_trace fresh_span c given current =
     (let s = Span_new now fresh_trace fresh_span c;
          h = (case given of None \<Rightarrow> current | Some x \<Rightarrow> x)
      in span.extend s
           \<lparr>name = str_or (ctx_name c) [],
            tracestate =
              str_or (ctx_tracestate c)
                (str_or (getNewTracestate g num h (traceId s)) (js ''things are broken'')),
            measurements = [],
            hub = h,
            trimEnd = ctx_trimEnd c,
            spanRecorder = None\<rparr>)"

section \<open>Requests (packages/core/src/request.ts)\<close>

text \<open>
  The class \<open>API\<close> of \<open>./api\<close> is not among the sources; the two urls it provides are
  taken as given.
\<close>

record API =
  getStoreEndpointWithUrlEncodedAuth :: jsstring
  getEnvelopeEndpointWithUrlEncodedAuth :: jsstring

record SentryRequest =
  body :: jsstring
  rtype :: json
  url :: jsstring

text \<open>
  The \<open>try\<close> block of \<open>transactionToSentryRequest\<close>: every exception in it, also the
  \<open>TypeError\<close> of calling \<open>replace\<close> on what is no string, leaves the empty string.
\<close>

definition tracestateJSON :: "global_object \<Rightarrow> object \<Rightarrow> json" where
  "tracestateJSON g event =
     (let ts = get_prop event (js ''tracestate'')
      in if truthy ts then
           (case ts of
              JStr s \<Rightarrow>
                (case base64ToUnicode g (replace_first_dot s) of
                   Inl err \<Rightarrow> JStr []
                 | Inr u \<Rightarrow> JStr u)
            | _ \<Rightarrow> JStr [])
         else JUndefined)"

definition envelopeHeaders ::
  "global_object \<Rightarrow> (rat \<Rightarrow> jsstring) \<Rightarrow> jsstring \<Rightarrow> object \<Rightarrow> jsstring" where
  "envelopeHeaders g num sent_at event =
     (let event' = delete_prop event (js ''tracestate'')
      in JSON_stringify num
           [(js ''event_id'', get_prop event' (js ''event_id'')),
            (js ''sent_at'', JStr sent_at),
            (js ''trace_id'',
               opt_chain (opt_chain (get_prop event' (js ''contexts'')) (js ''trace''))
                 (js ''trace_id'')),
            (js ''trace'', tracestateJSON g event)])"

definition itemHeaders :: "(rat \<Rightarrow> jsstring) \<Rightarrow> object \<Rightarrow> jsstring" where
  "itemHeaders num event =
     JSON_stringify num [(js ''type'', get_prop (delete_prop event (js ''tracestate'')) (js ''type''))]"

text \<open>
  \<open>transactionToSentryRequest(event, api)\<close>: the request, and the caller's event after
  \<open>delete event.tracestate\<close>. \<open>sent_at\<close> is \<open>new Date().toISOString()\<close>.
\<close>

definition transactionToSentryRequest ::
  "global_object \<Rightarrow> (rat \<Rightarrow> jsstring) \<Rightarrow> jsstring \<Rightarrow> object \<Rightarrow> API \<Rightarrow> SentryRequest \<times> object" where
  "transactionToSentryRequest g num sent_at event api =
     (let event' = delete_prop event (js ''tracestate'')
      in (\<lparr>body = envelopeHeaders g num sent_at event @ [10] @ itemHeaders num event @ [10]
                   @ JSON_stringify num event',
           rtype = JStr (js ''transaction''),
           url = getEnvelopeEndpointWithUrlEncodedAuth api\<rparr>,
          event'))"

definition eventToSentryRequest ::
  "global_object \<Rightarrow> (rat \<Rightarrow> jsstring) \<Rightarrow> jsstring \<Rightarrow> object \<Rightarrow> API \<Rightarrow> SentryRequest \<times> object" where
  "eventToSentryRequest g num sent_at event api =
     (if get_prop event (js ''type'') = JStr (js ''transaction'')
      then transactionToSentryRequest g num sent_at event api
      else
        (\<lparr>body = JSON_stringify num event,
          rtype = (if truthy (get_prop event (js ''type'')) then get_prop event (js ''type'')
                   else JStr (js ''event'')),
          url = getStoreEndpointWithUrlEncodedAuth api\<rparr>,
         event))"

definition sessionToSentryRequest ::
  "(rat \<Rightarrow> jsstring) \<Rightarrow> jsstring \<Rightarrow> object \<Rightarrow> API \<Rightarrow> SentryRequest" where
  "sessionToSentryRequest num sent_at session api =
     \<lparr>body = JSON_stringify num [(js ''sent_at'', JStr sent_at)] @ [10]
              @ JSON_stringify num [(js ''type'', JStr (js ''session''))] @ [10]
              @ JSON_stringify num session,
      rtype = JStr (js ''session''),
      url = getEnvelopeEndpointWithUrlEncodedAuth api\<rparr>"

text \<open>The lines of a payload: the text between line feeds.\<close>

fun lines_of :: "jsstring \<Rightarrow> jsstring list" where
  "lines_of [] = [[]]"
| "lines_of (c # cs) =
     (if c = 10 then [] # lines_of cs
      else (case lines_of cs of [] \<Rightarrow> [[c]] | l # ls \<Rightarrow> (c # l) # ls))"

section \<open>The sampler\<close>

text \<open>
  Modelled from the spec: the sampler of \<open>hubextensions\<close> is not among the sources (only
  its tests are). A value is a valid rate when it is a boolean or a number in the closed
  interval from 0 to 1; booleans count as 1 and 0.
\<close>

fun isValidSampleRate :: "sample_value \<Rightarrow> bool" where
  "isValidSampleRate (Number q) = (0 \<le> q \<and> q \<le> 1)"
| "isValidSampleRate (Boolean b) = True"
| "isValidSampleRate NaN = False"
| "isValidSampleRate NotNumeric = False"

fun probability :: "sample_value \<Rightarrow> rat" where
  "probability (Number q) = q"
| "probability (Boolean b) = (if b then 1 else 0)"
| "probability _ = 0"

text \<open>
  Modelled from the spec: the precedence of section 4.1, first matching rule first.
  \<open>random\<close> is the draw of the pseudo-random source, \<open>env\<close> the data of the
  instrumentation collaborator.
\<close>

definition resolve :: "rat \<Rightarrow> object \<Rightarrow> transaction_context \<Rightarrow> client option \<Rightarrow> bool" where
  "resolve random env c cl =
     (case ctx_sampled c of
        Some b \<Rightarrow> b
      | None \<Rightarrow>
          (case cl of
             None \<Rightarrow> False
           | Some client \<Rightarrow>
               let rate = (case getOptions client of None \<Rightarrow> None | Some os \<Rightarrow> tracesSampleRate os);
                   sampler = (case getOptions client of None \<Rightarrow> None | Some os \<Rightarrow> tracesSampler os)
               in if Option.is_none rate \<and> Option.is_none sampler then False
                  else
                    (case sampler of
                       Some f \<Rightarrow>
                         let v = f \<lparr>sc_transactionContext = c,
                                    sc_parentSampled = ctx_parentSampled c,
                                    sc_environment = env\<rparr>
                         in if \<not> isValidSampleRate v then False else random < probability v
                     | None \<Rightarrow>
                         (case ctx_parentSampled c of
                            Some b \<Rightarrow> b
                          | None \<Rightarrow>
                              (case rate of
                                 None \<Rightarrow> False
                               | Some v \<Rightarrow>
                                   if \<not> isValidSampleRate v then False
                                   else random < probability v)))))"

section \<open>The configuration of the tests\<close>

text \<open>The client, context and identifiers of \<open>packages/tracing/test/hub.test.ts\<close>.\<close>

definition dogpark_dsn :: dsn where
  "dogpark_dsn = \<lparr>user = js ''dogsarebadatkeepingsecrets''\<rparr>"

definition dogpark_client :: client where
  "dogpark_client =
     \<lparr>getDsn = Some dogpark_dsn,
      getOptions = Some \<lparr>environment = Some (js ''dogpark''),
                         release = Some (js ''off.leash.park''),
                         tracesSampleRate = Some (Number 1),
                         tracesSampler = None\<rparr>\<rparr>"

definition dogpark_hub :: hub where
  "dogpark_hub =
     \<lparr>getClient = Some dogpark_client, captured = [], event_ids = (\<lambda>n. Some (js ''c0ffee''))\<rparr>"

definition dogpark_context :: transaction_context where
  "dogpark_context =
     \<lparr>ctx_name = Some (js ''dogpark''), ctx_traceId = None, ctx_spanId = None,
      ctx_parentSpanId = Some (js ''12312012''), ctx_sampled = None,
      ctx_parentSampled = Some False, ctx_op = None, ctx_description = None,
      ctx_status = None, ctx_tags = None, ctx_startTimestamp = None,
      ctx_endTimestamp = None, ctx_trimEnd = None, ctx_tracestate = None\<rparr>"

definition dogpark_trace_id :: jsstring where
  "dogpark_trace_id = js ''12312012123120121231201212312012''"

text \<open>The context of the first test, which brings its own \<open>tracestate\<close>.\<close>

definition inherited_context :: transaction_context where
  "inherited_context =
     \<lparr>ctx_name = Some (js ''dogpark''),
      ctx_traceId = Some (js ''12312012123120121231201212312012''),
      ctx_spanId = None, ctx_parentSpanId = Some (js ''1121201211212012''),
      ctx_sampled = None, ctx_parentSampled = None, ctx_op = None, ctx_description = None,
      ctx_status = None, ctx_tags = None, ctx_startTimestamp = None,
      ctx_endTimestamp = None, ctx_trimEnd = None,
      ctx_tracestate = Some (js ''doGsaREgReaT=='')\<rparr>"

definition node_global :: global_object where
  "node_global = \<lparr>has_btoa = False, has_atob = False, has_Buffer = True\<rparr>"

definition browser_global :: global_object where
  "browser_global = \<lparr>has_btoa = True, has_atob = True, has_Buffer = False\<rparr>"

definition bare_global :: global_object where
  "bare_global = \<lparr>has_btoa = False, has_atob = False, has_Buffer = False\<rparr>"

text \<open>A number text for data whose numbers are all zero.\<close>

definition zero_text :: "rat \<Rightarrow> jsstring" where
  "zero_text q = js ''0''"

text \<open>The \<open>dataStr\<close> of a transaction of the test client with the test trace id.\<close>

definition dogpark_dataStr :: jsstring where
  "dogpark_dataStr = dataStr zero_text dogpark_client dogpark_dsn dogpark_trace_id"

definition child_span :: "rat option \<Rightarrow> span" where
  "child_span e =
     \<lparr>traceId = dogpark_trace_id, spanId = js ''1121201211212012'', parentSpanId = None,
      sampled = Some True, op = None, description = None, status = None, tags = [],
      startTimestamp = 1, endTimestamp = e\<rparr>"

text \<open>An open, sampled transaction with the trim flag and three children, finished at 7,
  at 10 and not at all.\<close>

definition dogpark_transaction :: transaction where
  "dogpark_transaction =
     \<lparr>traceId = dogpark_trace_id, spanId = js ''1121201211212012'', parentSpanId = None,
      sampled = Some True, op = None, description = None, status = None, tags = [],
      startTimestamp = 1, endTimestamp = None,
      name = js ''dogpark'', tracestate = js ''doGsaREgReaT=='', measurements = [],
      hub = dogpark_hub, trimEnd = Some True,
      spanRecorder = Some [This, Child (child_span (Some 7)), Child (child_span (Some 10)),
                           Child (child_span None)]\<rparr>"

definition dogpark_api :: API where
  "dogpark_api =
     \<lparr>getStoreEndpointWithUrlEncodedAuth = js ''https://squirrelchasers.ingest.sentry.io/api/12312012/store/'',
      getEnvelopeEndpointWithUrlEncodedAuth = js ''https://squirrelchasers.ingest.sentry.io/api/12312012/envelope/''\<rparr>"

text \<open>A transaction event whose tracestate is the encoding of \<open>park\<close>, and the time of
  sending.\<close>

definition dogpark_event :: object where
  "dogpark_event =
     [(js ''event_id'', JStr (js ''c0ffee'')),
      (js ''contexts'', JObj [(js ''trace'', JObj [(js ''trace_id'', JStr dogpark_trace_id)])]),
      (js ''start_timestamp'', JNum 0),
      (js ''tracestate'', JStr (js ''cABhAHIAawA.'')),
      (js ''transaction'', JStr (js ''dogpark'')),
      (js ''type'', JStr (js ''transaction''))]"

definition dogpark_sent_at :: jsstring where
  "dogpark_sent_at = js ''2020-11-03T12:00:00.000Z''"

text \<open>A transaction event carrying the tracestate of the first test, which is no base64.\<close>

definition inherited_event :: object where
  "inherited_event =
     [(js ''event_id'', JStr (js ''c0ffee'')),
      (js ''tracestate'', JStr (js ''doGsaREgReaT=='')),
      (js ''type'', JStr (js ''transaction''))]"

definition error_event :: object where
  "error_event =
     [(js ''event_id'', JStr (js ''c0ffee'')),
      (js ''message'', JStr (js ''squirrel!''))]"

section \<open>Transaction.finish\<close>

lemma finishedSpans_Span_finish:
  "finishedSpans (Span_finish now t e) = finishedSpans t"
  by (auto simp: finishedSpans_def Span_finish_def end_of_def split: option.splits recorded.splits intro!: filter_cong)

lemma finishedSpans_name:
  "finishedSpans (t\<lparr>name := n\<rparr>) = finishedSpans t"
  by (auto simp: finishedSpans_def end_of_def split: option.splits recorded.splits intro!: filter_cong)

lemma foldl_later_in: "foldl (later_span t) x r \<in> set (x # r)"
  by (induction r arbitrary: x) (auto simp: later_span_def)

lemma finishedSpans_truthy:
  "s \<in> set (finishedSpans t) \<Longrightarrow> \<exists>v. end_of t' s = Some v \<and> v \<noteq> 0"
  by (auto simp: finishedSpans_def end_of_def truthy_ts_def split: option.splits recorded.splits)

lemma finishedSpans_not_This: "s \<in> set (finishedSpans t) \<Longrightarrow> s \<noteq> This"
  by (auto simp: finishedSpans_def split: option.splits)

lemma later_span_ge:
  assumes "end_of t x = Some a" "a \<noteq> 0" "end_of t y = Some b" "b \<noteq> 0"
  shows "end_of t (later_span t x y) = Some (max a b)"
  using assms by (auto simp: later_span_def truthy_ts_def ts_gt_def max_def)

lemma foldl_later_max:
  "\<forall>s \<in> set (x # r). \<exists>v. end_of t s = Some v \<and> v \<noteq> 0 \<Longrightarrow>
   \<exists>m. end_of t (foldl (later_span t) x r) = Some m \<and>
       (\<forall>s \<in> set (x # r). \<forall>v. end_of t s = Some v \<longrightarrow> v \<le> m)"
proof (induction r arbitrary: x)
  case Nil
  then show ?case by auto
next
  case (Cons y r)
  from Cons.prems obtain a b where ab: "end_of t x = Some a" "a \<noteq> 0" "end_of t y = Some b" "b \<noteq> 0"
    by auto
  have l: "end_of t (later_span t x y) = Some (max a b)"
    using ab by (rule later_span_ge)
  have "\<forall>s \<in> set (later_span t x y # r). \<exists>v. end_of t s = Some v \<and> v \<noteq> 0"
    using Cons.prems l ab by (auto simp: max_def)
  from Cons.IH [OF this] obtain m where
    m: "end_of t (foldl (later_span t) (later_span t x y) r) = Some m"
       "\<forall>s \<in> set (later_span t x y # r). \<forall>v. end_of t s = Some v \<longrightarrow> v \<le> m"
    by blast
  from m(2) l have "max a b \<le> m" by simp
  with m ab show ?case by auto
qed

lemma finish_sets_end: "endTimestamp (snd (finish now t e)) \<noteq> None"
proof (cases "endTimestamp t \<noteq> None")
  case True
  then show ?thesis by (simp add: finish_def)
next
  case False
  define t2 where "t2 = Span_finish now (if name t = [] then t\<lparr>name := js ''<unlabeled transaction>''\<rparr> else t) e"
  have e2: "endTimestamp t2 \<noteq> None" by (simp add: t2_def Span_finish_def)
  have "endTimestamp (trim t2 (finishedSpans t2)) \<noteq> None"
  proof (cases "finishedSpans t2")
    case Nil
    then show ?thesis using e2 by (simp add: trim_def)
  next
    case (Cons x r)
    have "foldl (later_span t2) x r \<in> set (finishedSpans t2)"
      using foldl_later_in [of t2 x r] Cons by simp
    from finishedSpans_truthy [OF this, of t2] show ?thesis
      using e2 Cons by (auto simp: trim_def)
  qed
  then show ?thesis
    using False e2 by (auto simp: finish_def Let_def t2_def [symmetric] captureEvent_def split: prod.splits)
qed

text \<open>
  C1. \<open>finish\<close> is idempotent. On a transaction whose \<open>endTimestamp\<close> is set, \<open>finish\<close>
  returns \<open>undefined\<close> and leaves the transaction, its \<open>endTimestamp\<close> and its hub (so the
  list of events handed to \<open>captureEvent\<close>) as they were. Every first call sets
  \<open>endTimestamp\<close>, so a second call after any first call is such a no-op.
\<close>

theorem finish_idempotent:
  "(endTimestamp t \<noteq> None \<longrightarrow> finish now t e = (None, t))
   \<and> finish now' (snd (finish now t e)) e' = (None, snd (finish now t e))"
  using finish_sets_end [of now t e] by (simp add: finish_def)

text \<open>C1 at a transaction finished at 5: a later \<open>finish\<close> changes nothing and nothing is
  captured.\<close>

theorem finish_idempotent_witness:
  "endTimestamp (Span_finish 5 dogpark_transaction None) \<noteq> None
   \<and> finish 6 (Span_finish 5 dogpark_transaction None) None = (None, Span_finish 5 dogpark_transaction None)
   \<and> captured (hub (snd (finish 6 (Span_finish 5 dogpark_transaction None) None))) = []"
  using finish_idempotent [of "Span_finish 5 dogpark_transaction None" 6 None 6 None]
  by (simp add: Span_finish_def dogpark_transaction_def dogpark_hub_def)

text \<open>
  C2. The first \<open>finish\<close> of a transaction whose \<open>sampled\<close> is not \<open>true\<close> sets
  \<open>endTimestamp\<close> (to the argument, or to now), returns \<open>undefined\<close> and leaves the hub as
  it was: \<open>captureEvent\<close> is not called.
\<close>

theorem finish_unsampled:
  assumes "endTimestamp t = None" and "sampled t \<noteq> Some True"
  shows "fst (finish now t e) = None
         \<and> hub (snd (finish now t e)) = hub t
         \<and> endTimestamp (snd (finish now t e)) = Some (case e of None \<Rightarrow> now | Some x \<Rightarrow> x)"
  using assms by (simp add: finish_def Let_def Span_finish_def)

text \<open>C2 at the test transaction with \<open>sampled = false\<close>.\<close>

theorem finish_unsampled_witness:
  "endTimestamp (dogpark_transaction\<lparr>sampled := Some False\<rparr>) = None
   \<and> sampled (dogpark_transaction\<lparr>sampled := Some False\<rparr>) \<noteq> Some True
   \<and> fst (finish 5 (dogpark_transaction\<lparr>sampled := Some False\<rparr>) None) = None
   \<and> captured (hub (snd (finish 5 (dogpark_transaction\<lparr>sampled := Some False\<rparr>) None))) = []
   \<and> endTimestamp (snd (finish 5 (dogpark_transaction\<lparr>sampled := Some False\<rparr>) None)) = Some 5"
  using finish_unsampled [of "dogpark_transaction\<lparr>sampled := Some False\<rparr>" 5 None]
  by (simp add: dogpark_transaction_def dogpark_hub_def)

text \<open>
  C3, as the code has it. The first \<open>finish\<close> of a sampled transaction with the trim flag
  and at least one finished child sets \<open>endTimestamp\<close> to the greatest \<open>endTimestamp\<close>
  among the finished children: it is the end of one of them and none of them ends later.
  The captured event carries it as its \<open>timestamp\<close>. Nothing relates it to the
  \<open>endTimestamp\<close> the call itself set.
\<close>

theorem finish_trim_max:
  assumes "endTimestamp t = None" and "sampled t = Some True" and "trimEnd t = Some True"
    and "finishedSpans t \<noteq> []"
  shows "\<exists>m. endTimestamp (snd (finish now t e)) = Some m
           \<and> Some m \<in> set (map (end_of t) (finishedSpans t))
           \<and> (\<forall>s \<in> set (finishedSpans t). \<forall>v. end_of t s = Some v \<longrightarrow> v \<le> m)
           \<and> map ev_timestamp (captured (hub (snd (finish now t e))))
               = map ev_timestamp (captured (hub t)) @ [Some m]"
proof -
  define t2 where "t2 = Span_finish now (if name t = [] then t\<lparr>name := js ''<unlabeled transaction>''\<rparr> else t) e"
  have fs: "finishedSpans t2 = finishedSpans t"
    by (simp add: t2_def finishedSpans_Span_finish finishedSpans_name)
  obtain x r where xr: "finishedSpans t = x # r"
    using assms(4) by (cases "finishedSpans t") auto
  have nothis: "\<forall>s \<in> set (x # r). s \<noteq> This"
    using xr finishedSpans_not_This [of _ t] by auto
  have eo: "\<forall>s \<in> set (x # r). end_of t2 s = end_of t s"
    using nothis by (auto simp: end_of_def split: recorded.splits)
  have "\<forall>s \<in> set (x # r). \<exists>v. end_of t2 s = Some v \<and> v \<noteq> 0"
    using finishedSpans_truthy [of _ t t2] xr by simp
  from foldl_later_max [OF this] obtain m where
    m: "end_of t2 (foldl (later_span t2) x r) = Some m"
       "\<forall>s \<in> set (x # r). \<forall>v. end_of t2 s = Some v \<longrightarrow> v \<le> m"
    by blast
  have tr: "trimEnd t2 = Some True" "sampled t2 = Some True" "hub t2 = hub t"
    using assms by (simp_all add: t2_def Span_finish_def)
  have t3: "trim t2 (finishedSpans t2) = t2\<lparr>endTimestamp := Some m\<rparr>"
    using m tr by (simp add: trim_def fs xr)
  have fin: "finish now t e =
      (event_ids (hub t) (length (captured (hub t))),
       t2\<lparr>endTimestamp := Some m,
          hub := (hub t)\<lparr>captured := captured (hub t) @ [transactionEvent (t2\<lparr>endTimestamp := Some m\<rparr>) (finishedSpans t)]\<rparr>\<rparr>)"
    using assms(1) tr t3 fs
    by (simp add: finish_def Let_def t2_def [symmetric] captureEvent_def)
  have mem: "Some m \<in> set (map (end_of t) (finishedSpans t))"
    using m(1) foldl_later_in [of t2 x r] eo xr by (metis image_eqI list.set_map)
  show ?thesis
    using fin mem m(2) eo xr by (auto simp: transactionEvent_def)
qed

text \<open>C3 at the test transaction, children finished at 7 and 10, \<open>finish()\<close> at 20: the end
  becomes 10.\<close>

theorem finish_trim_max_witness:
  "endTimestamp dogpark_transaction = None \<and> sampled dogpark_transaction = Some True
   \<and> trimEnd dogpark_transaction = Some True \<and> finishedSpans dogpark_transaction \<noteq> []
   \<and> endTimestamp (snd (finish 20 dogpark_transaction None)) = Some 10"
proof -
  have h: "endTimestamp dogpark_transaction = None" "sampled dogpark_transaction = Some True"
    "trimEnd dogpark_transaction = Some True" "finishedSpans dogpark_transaction \<noteq> []"
    by (simp_all add: dogpark_transaction_def finishedSpans_def end_of_def truthy_ts_def child_span_def)
  have fs: "finishedSpans dogpark_transaction = [Child (child_span (Some 7)), Child (child_span (Some 10))]"
    by (simp add: dogpark_transaction_def finishedSpans_def end_of_def truthy_ts_def child_span_def)
  from finish_trim_max [OF h, of 20 None] obtain m where
    m: "endTimestamp (snd (finish 20 dogpark_transaction None)) = Some m"
       "Some m \<in> set (map (end_of dogpark_transaction) (finishedSpans dogpark_transaction))"
       "\<forall>s \<in> set (finishedSpans dogpark_transaction). \<forall>v. end_of dogpark_transaction s = Some v \<longrightarrow> v \<le> m"
    by blast
  from m(3) have "10 \<le> m" by (simp add: fs end_of_def child_span_def)
  moreover from m(2) have "m = 7 \<or> m = 10" by (auto simp add: fs end_of_def child_span_def)
  ultimately have "m = 10" by auto
  with m(1) h show ?thesis by simp
qed

text \<open>
  C3 as stated fails: \<open>finish(5)\<close> on the same transaction sets the end to 5, and the trim
  then moves it to 10, past what the call set.
\<close>

theorem finish_trim_extends_counterexample:
  "endTimestamp (Span_finish 20 dogpark_transaction (Some 5)) = Some 5
   \<and> endTimestamp (snd (finish 20 dogpark_transaction (Some 5))) = Some 10
   \<and> \<not> ((10::rat) \<le> 5)"
  by (simp add: finish_def Span_finish_def trim_def finishedSpans_def end_of_def truthy_ts_def
      ts_gt_def later_span_def captureEvent_def transactionEvent_def
      dogpark_transaction_def child_span_def dogpark_hub_def Let_def)

section \<open>The tracestate value\<close>

lemma unat_of_nat16: "n < 65536 \<Longrightarrow> unat (of_nat n :: 16 word) = n"
  by (simp add: unat_of_nat)

lemma is_b64_unat:
  "is_b64 c \<longleftrightarrow>
     (65 \<le> unat c \<and> unat c \<le> 90) \<or> (97 \<le> unat c \<and> unat c \<le> 122)
     \<or> (48 \<le> unat c \<and> unat c \<le> 57) \<or> unat c = 43 \<or> unat c = 47"
  by (simp add: is_b64_def word_le_nat_alt word_unat_eq_iff)

lemma unat_b64_digit:
  "unat (b64_digit n) =
     (if n < 26 then 65 + n else if n < 52 then 71 + n else if n < 62 then n - 4
      else if n = 62 then 43 else 47)"
  by (simp add: b64_digit_def unat_of_nat16 del: of_nat_add of_nat_diff)

lemma is_b64_digit: "is_b64 (b64_digit n)"
  unfolding is_b64_unat unat_b64_digit by auto

lemma is_b64_not_pad: "is_b64 c \<Longrightarrow> c \<noteq> 61 \<and> c \<noteq> 46"
  by (auto simp: is_b64_def)


lemma base64_encode_step:
  fixes q d :: jsstring and rest :: "nat list"
  assumes d: "list_all is_b64 d"
    "length rest mod 3 = 0 \<longrightarrow> base64_encode rest = d \<and> length d mod 4 = 0"
    "length rest mod 3 = 1 \<longrightarrow> base64_encode rest = d @ [61, 61] \<and> length d mod 4 = 2"
    "length rest mod 3 = 2 \<longrightarrow> base64_encode rest = d @ [61] \<and> length d mod 4 = 3"
  and q: "length q = 4" "list_all is_b64 q"
  shows "\<exists>d'. list_all is_b64 d' \<and>
       (length rest mod 3 = 0 \<longrightarrow> q @ base64_encode rest = d' \<and> length d' mod 4 = 0) \<and>
       (length rest mod 3 = 1 \<longrightarrow> q @ base64_encode rest = d' @ [61, 61] \<and> length d' mod 4 = 2) \<and>
       (length rest mod 3 = 2 \<longrightarrow> q @ base64_encode rest = d' @ [61] \<and> length d' mod 4 = 3)"
proof -
  have l: "length (q @ d) mod 4 = length d mod 4"
    using q(1) by simp
  have qd: "list_all is_b64 (q @ d)"
    using d(1) q(2) by simp
  show ?thesis
  proof (intro exI [of _ "q @ d"] conjI impI)
    show "list_all is_b64 (q @ d)" by (rule qd)
  next
    assume "length rest mod 3 = 0"
    with d(2) show "q @ base64_encode rest = q @ d" by simp
  next
    assume "length rest mod 3 = 0"
    with d(2) l show "length (q @ d) mod 4 = 0" by simp
  next
    assume "length rest mod 3 = 1"
    with d(3) show "q @ base64_encode rest = (q @ d) @ [61, 61]" by simp
  next
    assume "length rest mod 3 = 1"
    with d(3) l show "length (q @ d) mod 4 = 2" by simp
  next
    assume "length rest mod 3 = 2"
    with d(4) show "q @ base64_encode rest = (q @ d) @ [61]" by simp
  next
    assume "length rest mod 3 = 2"
    with d(4) l show "length (q @ d) mod 4 = 3" by simp
  qed
qed


lemma base64_encode_shape:
  "\<exists>d. list_all is_b64 d \<and>
       (length bs mod 3 = 0 \<longrightarrow> base64_encode bs = d \<and> length d mod 4 = 0) \<and>
       (length bs mod 3 = 1 \<longrightarrow> base64_encode bs = d @ [61, 61] \<and> length d mod 4 = 2) \<and>
       (length bs mod 3 = 2 \<longrightarrow> base64_encode bs = d @ [61] \<and> length d mod 4 = 3)"
proof (induction bs rule: base64_encode.induct)
  case 1
  show ?case by simp
next
  case (2 a)
  show ?case
    by (rule exI [of _ "[b64_digit (a div 4), b64_digit (a mod 4 * 16)]"]) (simp add: is_b64_digit)
next
  case (3 a b)
  show ?case
    by (rule exI [of _ "[b64_digit (a div 4), b64_digit (a mod 4 * 16 + b div 16), b64_digit (b mod 16 * 4)]"])
       (simp add: is_b64_digit)
next
  case (4 a b c rest)
  define q where "q = [b64_digit (a div 4), b64_digit (a mod 4 * 16 + b div 16),
      b64_digit (b mod 16 * 4 + c div 64), b64_digit (c mod 64)]"
  have q: "length q = 4" "list_all is_b64 q"
    by (simp_all add: q_def is_b64_digit)
  have "length (a # b # c # rest) = length rest + 3"
    by simp
  then have m: "length (a # b # c # rest) mod 3 = length rest mod 3"
    by (simp only: mod_add_self2)
  have e: "base64_encode (a # b # c # rest) = q @ base64_encode rest"
    by (simp add: q_def)
  from 4 obtain d where d: "list_all is_b64 d"
    "length rest mod 3 = 0 \<longrightarrow> base64_encode rest = d \<and> length d mod 4 = 0"
    "length rest mod 3 = 1 \<longrightarrow> base64_encode rest = d @ [61, 61] \<and> length d mod 4 = 2"
    "length rest mod 3 = 2 \<longrightarrow> base64_encode rest = d @ [61] \<and> length d mod 4 = 3"
    by (elim exE conjE)
  show ?case
    unfolding m e by (rule base64_encode_step [OF d q])
qed

lemma replace_padding_none: "61 \<notin> set d \<Longrightarrow> replace_padding d = d"
  by (induction d) auto

lemma replace_padding_one: "61 \<notin> set d \<Longrightarrow> replace_padding (d @ [61]) = d @ [46]"
  by (induction d) auto

lemma replace_padding_two: "61 \<notin> set d \<Longrightarrow> replace_padding (d @ [61, 61]) = d @ [46]"
  by (induction d) auto

lemma replace_first_dot_end: "46 \<notin> set d \<Longrightarrow> replace_first_dot (d @ [46]) = d @ [61]"
  by (induction d) auto

lemma replace_first_dot_none: "46 \<notin> set d \<Longrightarrow> replace_first_dot d = d"
  by (induction d) auto

lemma BASE64_REGEX_length: "BASE64_REGEX_test s \<Longrightarrow> length s mod 4 = 0"
  by (induction s rule: BASE64_REGEX_test.induct) (auto simp: mod_Suc)

lemma b64_no_pad: "list_all is_b64 d \<Longrightarrow> 61 \<notin> set d \<and> 46 \<notin> set d"
  using is_b64_not_pad by (auto simp: list_all_iff)


lemma length_utf16_bytes:
  "length (concat (map (\<lambda>c. [f c, h c]) s)) = 2 * length s"
  by (induction s) simp_all

lemma unicodeToBase64_result:
  assumes "unicodeToBase64 g s = Inr b"
  shows "\<exists>bs. length bs = 2 * length s \<and> b = base64_encode bs"
proof (cases "has_btoa g")
  case True
  with assms have "btoa (unicodeToBinary s) = Inr b"
    by (simp add: unicodeToBase64_def Let_def split: sum.splits)
  then have "b = base64_encode (map unat (unicodeToBinary s))"
    by (simp add: btoa_def split: if_splits)
  moreover have "length (map unat (unicodeToBinary s)) = 2 * length s"
    by (simp add: unicodeToBinary_def length_utf16_bytes)
  ultimately show ?thesis by (intro exI conjI)
next
  case False
  with assms have "b = Buffer_utf16le_to_base64 s"
    by (simp add: unicodeToBase64_def Let_def split: if_splits)
  then have "b = base64_encode (concat (map (\<lambda>c. [unat c mod 256, unat c div 256]) s))"
    by (simp add: Buffer_utf16le_to_base64_def)
  moreover have "length (concat (map (\<lambda>c. [unat c mod 256, unat c div 256]) s)) = 2 * length s"
    by (rule length_utf16_bytes)
  ultimately show ?thesis by (intro exI conjI)
qed


lemma tracestate_shape:
  assumes "unicodeToBase64 g s = Inr b"
  shows "\<exists>d. list_all is_b64 d \<and>
           (length s mod 3 = 0 \<longrightarrow> b = d \<and> replace_padding b = d \<and> length d mod 4 = 0) \<and>
           (length s mod 3 = 1 \<longrightarrow> b = d @ [61] \<and> replace_padding b = d @ [46] \<and> length d mod 4 = 3) \<and>
           (length s mod 3 = 2 \<longrightarrow> b = d @ [61, 61] \<and> replace_padding b = d @ [46] \<and> length d mod 4 = 2)"
proof -
  from unicodeToBase64_result [OF assms] obtain bs where
    bs: "length bs = 2 * length s" "b = base64_encode bs" by blast
  from base64_encode_shape [of bs] obtain d where d: "list_all is_b64 d"
    "length bs mod 3 = 0 \<longrightarrow> base64_encode bs = d \<and> length d mod 4 = 0"
    "length bs mod 3 = 1 \<longrightarrow> base64_encode bs = d @ [61, 61] \<and> length d mod 4 = 2"
    "length bs mod 3 = 2 \<longrightarrow> base64_encode bs = d @ [61] \<and> length d mod 4 = 3"
    by (elim exE conjE)
  have np: "61 \<notin> set d" using b64_no_pad [OF d(1)] by simp
  have m0: "length s mod 3 = 0 \<Longrightarrow> length bs mod 3 = 0"
    and m1: "length s mod 3 = 1 \<Longrightarrow> length bs mod 3 = 2"
    and m2: "length s mod 3 = 2 \<Longrightarrow> length bs mod 3 = 1"
    using bs(1) by presburger+
  show ?thesis
  proof (intro exI [of _ d] conjI impI)
    show "list_all is_b64 d" by (rule d(1))
  next
    assume "length s mod 3 = 0"
    with d(2) m0 bs(2) show "b = d" by simp
  next
    assume "length s mod 3 = 0"
    with d(2) m0 bs(2) np show "replace_padding b = d" by (simp add: replace_padding_none)
  next
    assume "length s mod 3 = 0"
    with d(2) m0 show "length d mod 4 = 0" by simp
  next
    assume "length s mod 3 = 1"
    with d(4) m1 bs(2) show "b = d @ [61]" by simp
  next
    assume "length s mod 3 = 1"
    with d(4) m1 bs(2) np show "replace_padding b = d @ [46]" by (simp add: replace_padding_one)
  next
    assume "length s mod 3 = 1"
    with d(4) m1 show "length d mod 4 = 3" by simp
  next
    assume "length s mod 3 = 2"
    with d(3) m2 bs(2) show "b = d @ [61, 61]" by simp
  next
    assume "length s mod 3 = 2"
    with d(3) m2 bs(2) np show "replace_padding b = d @ [46]" by (simp add: replace_padding_two)
  next
    assume "length s mod 3 = 2"
    with d(3) m2 show "length d mod 4 = 2" by simp
  qed
qed

lemma decode_rejects_double_padding:
  assumes "unicodeToBase64 g s = Inr b" and "length s mod 3 = 2"
  shows "replace_padding b \<noteq> [] \<and> \<not> BASE64_REGEX_test (replace_first_dot (replace_padding b))"
proof -
  from tracestate_shape [OF assms(1)] assms(2) obtain d where
    d: "list_all is_b64 d" "replace_padding b = d @ [46]" "length d mod 4 = 2"
    by auto
  have "46 \<notin> set d" using b64_no_pad [OF d(1)] by simp
  then have r: "replace_first_dot (replace_padding b) = d @ [61]"
    by (simp add: d(2) replace_first_dot_end)
  have "length (d @ [61]) mod 4 = 3"
    using d(3) by (simp add: mod_Suc)
  then have "\<not> BASE64_REGEX_test (d @ [61])"
    using BASE64_REGEX_length [of "d @ [61]"] by auto
  with r d(2) show ?thesis by simp
qed

lemma tracestateJSON_rejected:
  assumes "v \<noteq> []" and "\<not> BASE64_REGEX_test (replace_first_dot v)"
  shows "tracestateJSON g [(js ''tracestate'', JStr v)] = JStr []"
  using assms by (simp add: tracestateJSON_def get_prop_def base64ToUnicode_def)

text \<open>
  Where the text has a length of 0 or 1 modulo 3, its bytes end in no or one padding
  character and decoding the tracestate value gives the text back, under Node and in a
  browser. With \<open>decode_rejects_double_padding\<close> this says when the round trip works:
  exactly when the length of \<open>dataStr\<close> is not 2 modulo 3.
\<close>

lemma b64_value_digit: "n < 64 \<Longrightarrow> b64_value (b64_digit n) = n"
  unfolding b64_value_def word_le_nat_alt word_unat_eq_iff unat_b64_digit
  by (simp split: if_splits; arith)

lemma bytes_of_small: "x \<in> set (bytes_of s) \<Longrightarrow> x < 256"
proof -
  have "unat c div 256 < 256" for c :: "16 word"
  proof -
    have "unat c < 65536" using unsigned_less [of c] by simp
    then show ?thesis by simp
  qed
  then show "x \<in> set (bytes_of s) \<Longrightarrow> x < 256"
    by (auto simp: bytes_of_def)
qed

lemma pair_units_bytes_of: "pair_units (bytes_of s) = s"
  by (induction s) (simp_all add: bytes_of_def)

lemma length_bytes_of: "length (bytes_of s) = 2 * length s"
  by (simp add: bytes_of_def length_utf16_bytes)

lemma sextets:
  fixes a b c :: nat
  assumes "a < 256" and "b < 256" and "c < 256"
  shows "a div 4 < 64" and "a mod 4 * 16 + b div 16 < 64" and "b mod 16 * 4 + c div 64 < 64"
    and "c mod 64 < 64" and "a mod 4 * 16 < 64" and "b mod 16 * 4 < 64"
proof -
  have b: "b div 16 < 16" and c: "c div 64 < 4"
    using assms by simp_all
  have a4: "a mod 4 < 4" and b16: "b mod 16 < 16"
    by simp_all
  show "a div 4 < 64" using assms by simp
  show "a mod 4 * 16 + b div 16 < 64" using a4 b by linarith
  show "b mod 16 * 4 + c div 64 < 64" using b16 c by linarith
  show "c mod 64 < 64" by simp
  show "a mod 4 * 16 < 64" using a4 by linarith
  show "b mod 16 * 4 < 64" using b16 by linarith
qed

lemma split_high:
  fixes x y k :: nat
  assumes "y < k"
  shows "(x * k + y) div k = x" and "(x * k + y) mod k = y"
  using assms by simp_all

lemma octets:
  fixes a b c :: nat
  assumes "b < 256" and "c < 256"
  shows "a div 4 * 4 + (a mod 4 * 16 + b div 16) div 16 = a"
    and "(a mod 4 * 16 + b div 16) mod 16 * 16 + (b mod 16 * 4 + c div 64) div 4 = b"
    and "(b mod 16 * 4 + c div 64) mod 4 * 64 + c mod 64 = c"
    and "a div 4 * 4 + a mod 4 * 16 div 16 = a"
    and "(a mod 4 * 16 + b div 16) mod 16 * 16 + b mod 16 * 4 div 4 = b"
proof -
  have b: "b div 16 < 16" and c: "c div 64 < 4"
    using assms by simp_all
  show "a div 4 * 4 + (a mod 4 * 16 + b div 16) div 16 = a"
    by (simp add: split_high(1) [OF b])
  show "(a mod 4 * 16 + b div 16) mod 16 * 16 + (b mod 16 * 4 + c div 64) div 4 = b"
    by (simp add: split_high(2) [OF b] split_high(1) [OF c] mod_less [OF b])
  show "(b mod 16 * 4 + c div 64) mod 4 * 64 + c mod 64 = c"
    by (simp add: split_high(2) [OF c] mod_less [OF c])
  show "a div 4 * 4 + a mod 4 * 16 div 16 = a"
    by simp
  show "(a mod 4 * 16 + b div 16) mod 16 * 16 + b mod 16 * 4 div 4 = b"
    by (simp add: split_high(2) [OF b] mod_less [OF b])
qed

lemma decode_group:
  assumes "a < 256" and "b < 256" and "c < 256"
  shows "base64_decode (map b64_value
           ([b64_digit (a div 4), b64_digit (a mod 4 * 16 + b div 16),
             b64_digit (b mod 16 * 4 + c div 64), b64_digit (c mod 64)] @ d))
         = [a, b, c] @ base64_decode (map b64_value d)"
  using sextets [OF assms] octets [OF assms(2,3)]
  by (simp add: b64_value_digit)

lemma decode_one:
  assumes "a < 256"
  shows "base64_decode (map b64_value [b64_digit (a div 4), b64_digit (a mod 4 * 16)]) = [a]"
  using sextets [OF assms assms assms] octets [OF assms assms]
  by (simp add: b64_value_digit)

lemma decode_two:
  assumes "a < 256" and "b < 256"
  shows "base64_decode (map b64_value
           [b64_digit (a div 4), b64_digit (a mod 4 * 16 + b div 16), b64_digit (b mod 16 * 4)])
         = [a, b]"
  using sextets [OF assms assms(2)] octets [OF assms(2) assms(2)]
  by (simp add: b64_value_digit)

lemma base64_decode_encode:
  assumes "\<forall>x \<in> set bs. x < 256"
  shows "\<exists>d. list_all is_b64 d \<and> base64_decode (map b64_value d) = bs \<and>
       (length bs mod 3 = 0 \<longrightarrow> base64_encode bs = d \<and> length d mod 4 = 0) \<and>
       (length bs mod 3 = 1 \<longrightarrow> base64_encode bs = d @ [61, 61] \<and> length d mod 4 = 2) \<and>
       (length bs mod 3 = 2 \<longrightarrow> base64_encode bs = d @ [61] \<and> length d mod 4 = 3)"
  using assms
proof (induction bs rule: base64_encode.induct)
  case 1
  show ?case by simp
next
  case (2 a)
  then have a: "a < 256" by simp
  show ?case
    by (rule exI [of _ "[b64_digit (a div 4), b64_digit (a mod 4 * 16)]"])
       (use decode_one [OF a] in \<open>simp add: is_b64_digit\<close>)
next
  case (3 a b)
  then have ab: "a < 256" "b < 256" by simp_all
  show ?case
    by (rule exI [of _ "[b64_digit (a div 4), b64_digit (a mod 4 * 16 + b div 16), b64_digit (b mod 16 * 4)]"])
       (use decode_two [OF ab] in \<open>simp add: is_b64_digit\<close>)
next
  case (4 a b c rest)
  then have abc: "a < 256" "b < 256" "c < 256" and r: "\<forall>x \<in> set rest. x < 256"
    by simp_all
  define q where "q = [b64_digit (a div 4), b64_digit (a mod 4 * 16 + b div 16),
      b64_digit (b mod 16 * 4 + c div 64), b64_digit (c mod 64)]"
  have q: "length q = 4" "list_all is_b64 q"
    by (simp_all add: q_def is_b64_digit)
  have "length (a # b # c # rest) = length rest + 3"
    by simp
  then have m: "length (a # b # c # rest) mod 3 = length rest mod 3"
    by (simp only: mod_add_self2)
  have e: "base64_encode (a # b # c # rest) = q @ base64_encode rest"
    by (simp add: q_def)
  from "4.IH" [OF r] obtain d where d: "list_all is_b64 d"
    and dec: "base64_decode (map b64_value d) = rest"
    and d0: "length rest mod 3 = 0 \<longrightarrow> base64_encode rest = d \<and> length d mod 4 = 0"
    and d1: "length rest mod 3 = 1 \<longrightarrow> base64_encode rest = d @ [61, 61] \<and> length d mod 4 = 2"
    and d2: "length rest mod 3 = 2 \<longrightarrow> base64_encode rest = d @ [61] \<and> length d mod 4 = 3"
    by (elim exE conjE)
  have dq: "base64_decode (map b64_value (q @ d)) = a # b # c # rest"
    unfolding q_def using decode_group [OF abc, of d] dec by simp
  from base64_encode_step [OF d d0 d1 d2 q] obtain d' where d': "list_all is_b64 d'"
    "length rest mod 3 = 0 \<longrightarrow> q @ base64_encode rest = d' \<and> length d' mod 4 = 0"
    "length rest mod 3 = 1 \<longrightarrow> q @ base64_encode rest = d' @ [61, 61] \<and> length d' mod 4 = 2"
    "length rest mod 3 = 2 \<longrightarrow> q @ base64_encode rest = d' @ [61] \<and> length d' mod 4 = 3"
    by (elim exE conjE)
  consider "length rest mod 3 = 0" | "length rest mod 3 = 1" | "length rest mod 3 = 2"
    by linarith
  then have eq: "d' = q @ d"
  proof cases
    case 1
    with d0 d'(2) show ?thesis by simp
  next
    case 2
    with d1 d'(3) show ?thesis by simp
  next
    case 3
    with d2 d'(4) show ?thesis by simp
  qed
  show ?case
    unfolding m e
    by (rule exI [of _ d']) (use d' dq eq in blast)
qed

lemma regex_accepts_plain:
  "list_all is_b64 d \<Longrightarrow> length d mod 4 = 0 \<Longrightarrow> BASE64_REGEX_test d"
proof (induction d rule: BASE64_REGEX_test.induct)
  case (3 a b c d v va)
  have "length (a # b # c # d # v # va) = length (v # va) + 4" by simp
  then have "length (a # b # c # d # v # va) mod 4 = length (v # va) mod 4"
    by (simp only: mod_add_self2)
  with 3 show ?case by simp
qed simp_all

lemma regex_accepts_padded:
  "list_all is_b64 d \<Longrightarrow> length d mod 4 = 3 \<Longrightarrow> BASE64_REGEX_test (d @ [61])"
proof (induction d rule: BASE64_REGEX_test.induct)
  case (3 a b c d v va)
  have "length (a # b # c # d # v # va) = length (v # va) + 4" by simp
  then have "length (a # b # c # d # v # va) mod 4 = length (v # va) mod 4"
    by (simp only: mod_add_self2)
  with 3 show ?case by simp
qed simp_all

lemma utf16_bytes_btoa: "map unat (unicodeToBinary s) = bytes_of s"
proof -
  have "unat c div 256 < 65536" and "unat c mod 256 < 65536" for c :: "16 word"
  proof -
    have "unat c < 65536" using unsigned_less [of c] by simp
    then show "unat c div 256 < 65536" and "unat c mod 256 < 65536" by simp_all
  qed
  then show ?thesis
    by (induction s) (simp_all add: unicodeToBinary_def bytes_of_def unat_of_nat16 del: of_nat_add)
qed

lemma unicodeToBase64_bytes:
  assumes "unicodeToBase64 g s = Inr b"
  shows "b = base64_encode (bytes_of s)"
proof (cases "has_btoa g")
  case True
  with assms have "btoa (unicodeToBinary s) = Inr b"
    by (simp add: unicodeToBase64_def Let_def split: sum.splits)
  then show ?thesis
    by (simp add: btoa_def utf16_bytes_btoa split: if_splits)
next
  case False
  with assms show ?thesis
    by (simp add: unicodeToBase64_def Let_def Buffer_utf16le_to_base64_def bytes_of_def
        split: if_splits)
qed

lemma is_b64_not_space: "is_b64 c \<Longrightarrow> \<not> is_ascii_whitespace c"
  by (auto simp: is_b64_def is_ascii_whitespace_def)

lemma Buffer_decode_digits:
  assumes "list_all is_b64 d" and "p = [] \<or> hd p = 61"
  shows "Buffer_base64_to_utf16le (d @ p) = pair_units (base64_decode (map b64_value d))"
proof -
  have n: "\<forall>c \<in> set d. c \<noteq> 61"
    using assms(1) is_b64_not_pad by (auto simp: list_all_iff)
  have "takeWhile (\<lambda>c. c \<noteq> 61) (d @ p) = d"
  proof (cases p)
    case Nil
    then show ?thesis using n by simp
  next
    case (Cons x xs)
    with assms(2) have "x = 61" by simp
    with Cons n show ?thesis by (simp add: takeWhile_tail)
  qed
  moreover have "filter (\<lambda>c. is_b64 c \<or> c = 45 \<or> c = 95) d = d"
    using assms(1) by (simp add: list_all_iff)
  ultimately show ?thesis
    by (simp add: Buffer_base64_to_utf16le_def)
qed

lemma atob_digits:
  assumes "list_all is_b64 d" and "length d mod 4 \<noteq> 1"
    and "(p = [] \<and> length d mod 4 = 0) \<or> (p = [61] \<and> length d mod 4 = 3)"
  shows "atob (d @ p) = Inr (map of_nat (base64_decode (map b64_value d)))"
proof -
  have sp: "\<forall>c \<in> set (d @ p). \<not> is_ascii_whitespace c"
    using assms(1,3) is_b64_not_space by (auto simp: list_all_iff is_ascii_whitespace_def)
  then have f: "filter (\<lambda>c. \<not> is_ascii_whitespace c) (d @ p) = d @ p"
    by (simp only: filter_id_conv)
  have l: "d \<noteq> [] \<Longrightarrow> last d \<noteq> 61"
    using assms(1) is_b64_not_pad [of "last d"] by (auto simp: list_all_iff)
  have l4: "length (d @ p) mod 4 = 0"
    using assms(3) by (auto simp: mod_Suc)
  have st: "strip_padding (d @ p) = d"
  proof (cases "p = []")
    case True
    then show ?thesis using l by (auto simp: strip_padding_def)
  next
    case False
    with assms(3) have p: "p = [61]" and "length d mod 4 = 3" by auto
    then have "d \<noteq> []" by auto
    with l p show ?thesis by (simp add: strip_padding_def)
  qed
  have "atob (d @ p) =
      (if length d mod 4 = 1 \<or> \<not> list_all is_b64 d then Inl InvalidCharacterError
       else Inr (map of_nat (base64_decode (map b64_value d))))"
    unfolding atob_def f Let_def l4 st by simp
  then show ?thesis
    using assms(1,2) by simp
qed

lemma binaryToUnicode_bytes:
  "binaryToUnicode (map of_nat (bytes_of s)) = Inr s"
proof -
  have "map (\<lambda>c. unat c mod 256) (map of_nat (bytes_of s) :: jsstring) = bytes_of s"
  proof -
    have "unat (of_nat x :: 16 word) mod 256 = x" if "x \<in> set (bytes_of s)" for x
      using bytes_of_small [OF that] by (simp add: unat_of_nat16)
    then show ?thesis
      by (simp add: map_idI)
  qed
  then show ?thesis
    by (simp add: binaryToUnicode_def Let_def length_bytes_of pair_units_bytes_of)
qed

lemma base64ToUnicode_digits:
  assumes "list_all is_b64 d" and "base64_decode (map b64_value d) = bytes_of s"
    and "(p = [] \<and> length d mod 4 = 0) \<or> (p = [61] \<and> length d mod 4 = 3)"
    and "has_atob g \<or> has_Buffer g"
  shows "base64ToUnicode g (d @ p) = Inr s"
proof -
  have t: "BASE64_REGEX_test (d @ p)"
    using assms(1,3) regex_accepts_plain [of d] regex_accepts_padded [of d] by auto
  have n1: "length d mod 4 \<noteq> 1"
    using assms(3) by auto
  have a: "atob (d @ p) = Inr (map of_nat (bytes_of s))"
    using atob_digits [OF assms(1) n1 assms(3)] assms(2) by simp
  have "p = [] \<or> hd p = 61"
    using assms(3) by auto
  then have b: "Buffer_base64_to_utf16le (d @ p) = s"
    using Buffer_decode_digits [OF assms(1)] assms(2) by (simp add: pair_units_bytes_of)
  show ?thesis
    using assms(4) by (auto simp: base64ToUnicode_def Let_def t a b binaryToUnicode_bytes)
qed

lemma roundtrip_unless_double_padding:
  assumes "unicodeToBase64 g s = Inr b" and "length s mod 3 \<noteq> 2"
    and "has_atob g' \<or> has_Buffer g'"
  shows "base64ToUnicode g' (replace_first_dot (replace_padding b)) = Inr s"
proof -
  have b: "b = base64_encode (bytes_of s)"
    by (rule unicodeToBase64_bytes) (rule assms(1))
  have "\<forall>x \<in> set (bytes_of s). x < 256"
    using bytes_of_small by blast
  from base64_decode_encode [OF this] obtain d where d: "list_all is_b64 d"
    and dec: "base64_decode (map b64_value d) = bytes_of s"
    and d0: "length (bytes_of s) mod 3 = 0 \<longrightarrow> base64_encode (bytes_of s) = d \<and> length d mod 4 = 0"
    and d2: "length (bytes_of s) mod 3 = 2 \<longrightarrow> base64_encode (bytes_of s) = d @ [61] \<and> length d mod 4 = 3"
    by (elim exE conjE)
  have np: "61 \<notin> set d" "46 \<notin> set d"
    using b64_no_pad [OF d] by simp_all
  consider "length s mod 3 = 0" | "length s mod 3 = 1"
    using assms(2) by linarith
  then show ?thesis
  proof cases
    case 1
    then have "length (bytes_of s) mod 3 = 0"
      unfolding length_bytes_of by presburger
    with d0 b have e: "b = d" "length d mod 4 = 0" by simp_all
    have "replace_first_dot (replace_padding b) = d @ []"
      using np by (simp add: e(1) replace_padding_none replace_first_dot_none)
    then show ?thesis
      using base64ToUnicode_digits [OF d dec _ assms(3), of "[]"] e(2) by simp
  next
    case 2
    then have "length (bytes_of s) mod 3 = 2"
      unfolding length_bytes_of by presburger
    with d2 b have e: "b = d @ [61]" "length d mod 4 = 3" by simp_all
    have "replace_first_dot (replace_padding b) = d @ [61]"
      using np by (simp add: e(1) replace_padding_one replace_first_dot_end)
    then show ?thesis
      using base64ToUnicode_digits [OF d dec _ assms(3), of "[61]"] e(2) by simp
  qed
qed

lemma dogpark_dataStr_length: "length dogpark_dataStr = 140"
  unfolding dogpark_dataStr_def by code_simp

lemma dogpark_unicodeToBase64:
  "unicodeToBase64 node_global dogpark_dataStr = Inr (Buffer_utf16le_to_base64 dogpark_dataStr)"
  by (simp add: unicodeToBase64_def node_global_def)

lemma dogpark_getNewTracestate:
  "getNewTracestate node_global zero_text dogpark_hub dogpark_trace_id
     = Some (replace_padding (Buffer_utf16le_to_base64 dogpark_dataStr))"
  using dogpark_unicodeToBase64
  by (simp add: getNewTracestate_def dogpark_hub_def dogpark_client_def dogpark_dataStr_def)

lemma dogpark_tracestate_rejected:
  "replace_padding (Buffer_utf16le_to_base64 dogpark_dataStr) \<noteq> []"
  "\<not> BASE64_REGEX_test (replace_first_dot (replace_padding (Buffer_utf16le_to_base64 dogpark_dataStr)))"
  using decode_rejects_double_padding [OF dogpark_unicodeToBase64] dogpark_dataStr_length
  by simp_all

text \<open>
  C4 fails on the code. With the client of the tests (public key
  \<open>dogsarebadatkeepingsecrets\<close>, environment \<open>dogpark\<close>, release \<open>off.leash.park\<close>) and the
  trace id \<open>12312012123120121231201212312012\<close>, \<open>dataStr\<close> has 140 code units, so its
  280 bytes end in two padding characters. \<open>_getNewTracestate\<close> replaces both by one
  \<open>.\<close>; \<open>transactionToSentryRequest\<close> restores one \<open>=\<close>; the result is not base64, and
  the decoded tracestate is the empty string instead of \<open>dataStr\<close>, under Node and in a
  browser.
\<close>

theorem tracestate_roundtrip_fails:
  "(case getNewTracestate node_global zero_text dogpark_hub dogpark_trace_id of
      None \<Rightarrow> False
    | Some v \<Rightarrow>
        v \<noteq> []
        \<and> tracestateJSON node_global [(js ''tracestate'', JStr v)] = JStr []
        \<and> tracestateJSON browser_global [(js ''tracestate'', JStr v)] = JStr [])
   \<and> dogpark_dataStr \<noteq> []"
proof -
  have "dogpark_dataStr \<noteq> []"
    using dogpark_dataStr_length by auto
  then show ?thesis
    unfolding dogpark_getNewTracestate
    using dogpark_tracestate_rejected by (simp add: tracestateJSON_rejected)
qed

text \<open>
  C8. When \<open>unicodeToBase64\<close> succeeds, its value is a string without \<open>=\<close> followed by
  no, one or two \<open>=\<close>; replacing the padding leaves that string, followed by a single \<open>.\<close>
  where there was padding, so the tracestate value contains no \<open>=\<close>. The same holds for
  every value \<open>_getNewTracestate\<close> returns.
\<close>

theorem tracestate_no_equals:
  "(unicodeToBase64 g s = Inr b \<longrightarrow>
      61 \<notin> set (replace_padding b)
      \<and> (\<exists>d. 61 \<notin> set d
            \<and> ((b = d \<and> replace_padding b = d)
                \<or> (b = d @ [61] \<and> replace_padding b = d @ [46])
                \<or> (b = d @ [61, 61] \<and> replace_padding b = d @ [46]))))
   \<and> (getNewTracestate g num h tid = Some v \<longrightarrow> 61 \<notin> set v)"
proof -
  have a: "61 \<notin> set (replace_padding b')
      \<and> (\<exists>d. 61 \<notin> set d
            \<and> ((b' = d \<and> replace_padding b' = d)
                \<or> (b' = d @ [61] \<and> replace_padding b' = d @ [46])
                \<or> (b' = d @ [61, 61] \<and> replace_padding b' = d @ [46])))"
    if u: "unicodeToBase64 g s' = Inr b'" for s' b'
  proof -
    from tracestate_shape [OF u] obtain d where d: "list_all is_b64 d"
      "length s' mod 3 = 0 \<longrightarrow> b' = d \<and> replace_padding b' = d \<and> length d mod 4 = 0"
      "length s' mod 3 = 1 \<longrightarrow> b' = d @ [61] \<and> replace_padding b' = d @ [46] \<and> length d mod 4 = 3"
      "length s' mod 3 = 2 \<longrightarrow> b' = d @ [61, 61] \<and> replace_padding b' = d @ [46] \<and> length d mod 4 = 2"
      by (elim exE conjE)
    have np: "61 \<notin> set d" using b64_no_pad [OF d(1)] by simp
    consider "length s' mod 3 = 0" | "length s' mod 3 = 1" | "length s' mod 3 = 2"
      by linarith
    then have c: "(b' = d \<and> replace_padding b' = d)
                \<or> (b' = d @ [61] \<and> replace_padding b' = d @ [46])
                \<or> (b' = d @ [61, 61] \<and> replace_padding b' = d @ [46])"
      using d(2-4) by cases blast+
    then have "61 \<notin> set (replace_padding b')"
      using np by auto
    with np c show ?thesis by blast
  qed
  have "61 \<notin> set v" if gt: "getNewTracestate g num h tid = Some v"
  proof -
    from gt obtain cl d where cd: "getClient h = Some cl" "getDsn cl = Some d"
      by (auto simp: getNewTracestate_def split: option.splits)
    show ?thesis
    proof (cases "unicodeToBase64 g (dataStr num cl d tid)")
      case (Inl err)
      with gt cd show ?thesis by (simp add: getNewTracestate_def)
    next
      case (Inr b')
      with gt cd have "v = replace_padding b'" by (simp add: getNewTracestate_def)
      with a [OF Inr] show ?thesis by simp
    qed
  qed
  with a show ?thesis by blast
qed

text \<open>C8 at \<open>{}\<close>, whose base64 text is \<open>ewB9AA==\<close>, and at the test configuration.\<close>

theorem tracestate_no_equals_witness:
  "unicodeToBase64 node_global (js ''{}'') = Inr (js ''ewB9AA=='')
   \<and> replace_padding (js ''ewB9AA=='') = js ''ewB9AA.''
   \<and> 61 \<notin> set (js ''ewB9AA.'')
   \<and> getNewTracestate node_global zero_text dogpark_hub dogpark_trace_id
        = Some (replace_padding (Buffer_utf16le_to_base64 dogpark_dataStr))
   \<and> 61 \<notin> set (replace_padding (Buffer_utf16le_to_base64 dogpark_dataStr))"
proof -
  have u: "unicodeToBase64 node_global (js ''{}'') = Inr (js ''ewB9AA=='')"
    by (simp add: unicodeToBase64_def node_global_def Buffer_utf16le_to_base64_def js_def
        b64_digit_def)
  have r: "replace_padding (js ''ewB9AA=='') = js ''ewB9AA.''"
    by (simp add: js_def)
  from tracestate_no_equals [of node_global "js ''{}''" "js ''ewB9AA==''" zero_text dogpark_hub
      dogpark_trace_id "replace_padding (Buffer_utf16le_to_base64 dogpark_dataStr)"]
  show ?thesis
    using u r dogpark_getNewTracestate by simp
qed

section \<open>The sampler and the constructor\<close>

text \<open>
  C5. With no explicit \<open>sampled\<close> in the transaction context, a client whose options have
  no decision function and the fixed rate 1, and \<open>parentSampled = false\<close> in the context,
  the resolved value is \<open>false\<close>, whatever the random draw: the parent's decision wins
  over the fixed rate.
\<close>

theorem resolve_inherits_parent:
  assumes "ctx_sampled c = None" and "ctx_parentSampled c = Some False"
    and "getOptions client = Some os" and "tracesSampler os = None"
    and "tracesSampleRate os = Some (Number 1)"
  shows "resolve random env c (Some client) = False"
  using assms by (simp add: resolve_def)

text \<open>C5 at the context and client of the test; without \<open>parentSampled\<close> the same client
  samples the transaction.\<close>

theorem resolve_inherits_parent_witness:
  "ctx_sampled dogpark_context = None \<and> ctx_parentSampled dogpark_context = Some False
   \<and> (case getOptions dogpark_client of
         Some os \<Rightarrow> tracesSampler os = None \<and> tracesSampleRate os = Some (Number 1)
       | None \<Rightarrow> False)
   \<and> resolve 0 [] dogpark_context (Some dogpark_client) = False
   \<and> resolve 0 [] (dogpark_context\<lparr>ctx_parentSampled := None\<rparr>) (Some dogpark_client) = True"
  using resolve_inherits_parent [of dogpark_context dogpark_client
      "\<lparr>environment = Some (js ''dogpark''), release = Some (js ''off.leash.park''),
        tracesSampleRate = Some (Number 1), tracesSampler = None\<rparr>" 0 "[]"]
  by (simp add: dogpark_context_def dogpark_client_def resolve_def)

section \<open>The bodies of the requests\<close>

lemma unat_hex_digit: "n < 16 \<Longrightarrow> unat (hex_digit n) = (if n < 10 then 48 + n else 87 + n)"
  by (simp add: hex_digit_def unat_of_nat16 del: of_nat_add)

lemma hex_digit_no_nl: "n < 16 \<Longrightarrow> hex_digit n \<noteq> 10"
  by (simp add: word_unat_eq_iff unat_hex_digit)

lemma UnicodeEscape_no_nl: "10 \<notin> set (UnicodeEscape c)"
proof -
  have "unat c < 65536" using unsigned_less [of c] by simp
  then have "unat c div 4096 < 16" by simp
  then show ?thesis
    by (simp add: UnicodeEscape_def hex_digit_no_nl)
qed

lemma trail_surrogate_no_nl: "is_trail_surrogate d \<Longrightarrow> d \<noteq> 10"
  by (auto simp: is_trail_surrogate_def)

lemma quote_units_step:
  assumes cs: "10 \<notin> set (quote_units cs)"
    and ds: "\<And>d ds. cs = d # ds \<Longrightarrow> 10 \<notin> set (quote_units ds)"
  shows "10 \<notin> set (quote_units (c # cs))"
proof (cases "c = 8 \<or> c = 9 \<or> c = 10 \<or> c = 12 \<or> c = 13 \<or> c = 34 \<or> c = 92")
  case True
  then show ?thesis using cs by auto
next
  case False
  note plain = this
  show ?thesis
  proof (cases "c < 32")
    case True
    then show ?thesis using plain cs UnicodeEscape_no_nl [of c] by simp
  next
    case False
    note big = this
    show ?thesis
    proof (cases "is_lead_surrogate c")
      case True
      show ?thesis
      proof (cases cs)
        case Nil
        then show ?thesis using plain big True UnicodeEscape_no_nl [of c] by simp
      next
        case (Cons d ds')
        then show ?thesis
          using plain big True UnicodeEscape_no_nl [of c] cs ds [OF Cons]
            trail_surrogate_no_nl [of d]
          by simp
      qed
    next
      case False
      then show ?thesis
        using plain big cs UnicodeEscape_no_nl [of c] by simp
    qed
  qed
qed

lemma quote_units_no_nl_aux: "length s \<le> n \<Longrightarrow> 10 \<notin> set (quote_units s)"
proof (induction n arbitrary: s)
  case 0
  then show ?case by simp
next
  case (Suc n)
  show ?case
  proof (cases s)
    case Nil
    then show ?thesis by simp
  next
    case (Cons c cs)
    have a: "10 \<notin> set (quote_units cs)"
      using Suc Cons by simp
    have b: "10 \<notin> set (quote_units ds)" if "cs = d # ds" for d ds
      using Suc Cons that by simp
    show ?thesis
      unfolding Cons using a b by (rule quote_units_step)
  qed
qed

lemma quote_units_no_nl: "10 \<notin> set (quote_units s)"
  using quote_units_no_nl_aux [of s "length s"] by simp

lemma QuoteJSONString_no_nl: "10 \<notin> set (QuoteJSONString s)"
  by (simp add: QuoteJSONString_def quote_units_no_nl)

lemma join_comma_no_nl: "(\<And>x. x \<in> set xs \<Longrightarrow> 10 \<notin> set x) \<Longrightarrow> 10 \<notin> set (join_comma xs)"
  by (induction xs rule: join_comma.induct) simp_all

lemma ser_no_nl:
  fixes num :: "rat \<Rightarrow> jsstring"
  shows "(\<And>q. 10 \<notin> set (num q)) \<Longrightarrow> ser num v = Some s \<Longrightarrow> 10 \<notin> set s"
    and "(\<And>q. 10 \<notin> set (num q)) \<Longrightarrow> x \<in> set (ser_elems num vs) \<Longrightarrow> 10 \<notin> set x"
    and "(\<And>q. 10 \<notin> set (num q)) \<Longrightarrow> y \<in> set (ser_props num ps) \<Longrightarrow> 10 \<notin> set y"
proof (induction num v and num vs and num ps arbitrary: s and x and y
    rule: ser_ser_elems_ser_props.induct)
  case (1 num)
  then show ?case by simp
next
  case (2 num)
  then show ?case by (auto simp: js_def)
next
  case (3 num b)
  then show ?case by (auto simp: js_def split: if_splits)
next
  case (4 num q)
  then show ?case by auto
next
  case (5 num t)
  then show ?case by (auto simp: QuoteJSONString_no_nl)
next
  case (6 num vs)
  have "10 \<notin> set (join_comma (ser_elems num vs))"
    by (rule join_comma_no_nl) (rule "6.IH", rule "6.prems"(1))
  with "6.prems"(2) show ?case by auto
next
  case (7 num ps)
  have "10 \<notin> set (join_comma (ser_props num ps))"
    by (rule join_comma_no_nl) (rule "7.IH", rule "7.prems"(1))
  with "7.prems"(2) show ?case by auto
next
  case (8 num)
  then show ?case by simp
next
  case (9 num v vs)
  show ?case
  proof (cases "ser num v")
    case None
    with "9.prems"(2) have "x = js ''null'' \<or> x \<in> set (ser_elems num vs)" by simp
    then show ?thesis
      using "9.IH"(2) [OF "9.prems"(1)] by (auto simp: js_def)
  next
    case (Some t)
    with "9.prems"(2) have "x = t \<or> x \<in> set (ser_elems num vs)" by simp
    then show ?thesis
      using "9.IH"(1) [OF "9.prems"(1) Some] "9.IH"(2) [OF "9.prems"(1)] by auto
  qed
next
  case (10 num)
  then show ?case by simp
next
  case (11 num k v ps)
  show ?case
  proof (cases "ser num v")
    case None
    with "11.prems"(2) have "y \<in> set (ser_props num ps)" by simp
    then show ?thesis
      using "11.IH"(2) [OF None "11.prems"(1)] by auto
  next
    case (Some t)
    with "11.prems"(2) have "y = QuoteJSONString k @ [58] @ t \<or> y \<in> set (ser_props num ps)"
      by simp
    then show ?thesis
      using "11.IH"(1) [OF "11.prems"(1) Some] "11.IH"(3) [OF Some "11.prems"(1)]
        QuoteJSONString_no_nl [of k]
      by auto
  qed
qed

lemma JSON_stringify_no_nl:
  assumes "\<And>q. 10 \<notin> set (num q)"
  shows "10 \<notin> set (JSON_stringify num ps)"
proof -
  have "10 \<notin> set (join_comma (ser_props num ps))"
    by (rule join_comma_no_nl) (rule ser_no_nl(3), rule assms)
  then show ?thesis by (simp add: JSON_stringify_def)
qed

lemma lines_of_single: "10 \<notin> set a \<Longrightarrow> lines_of a = [a]"
  by (induction a) auto

lemma lines_of_append: "10 \<notin> set a \<Longrightarrow> lines_of (a @ 10 # b) = a # lines_of b"
  by (induction a) auto

lemma map_of_delete_prop: "k \<noteq> k' \<Longrightarrow> map_of (delete_prop ps k') k = map_of ps k"
  by (induction ps) (auto simp: delete_prop_def)

lemma get_prop_delete_prop: "k \<noteq> k' \<Longrightarrow> get_prop (delete_prop ps k') k = get_prop ps k"
  by (simp add: get_prop_def map_of_delete_prop)

lemma deleted_absent: "k \<notin> fst ` set (delete_prop ps k)"
  by (auto simp: delete_prop_def)

lemma get_prop_deleted: "get_prop (delete_prop ps k) k = JUndefined"
proof -
  have "map_of (delete_prop ps k) k = None"
    using deleted_absent [of k ps] by (simp add: map_of_eq_None_iff)
  then show ?thesis by (simp add: get_prop_def)
qed

lemma type_not_tracestate: "js ''type'' \<noteq> js ''tracestate''"
  by (simp add: js_def)

lemma item_header_transaction:
  \<open>JSON_stringify num [(js ''type'', JStr (js ''transaction''))] = js ''{"type":"transaction"}''\<close>
  by (simp add: JSON_stringify_def QuoteJSONString_def js_def is_lead_surrogate_def
      is_trail_surrogate_def)

lemma three_lines:
  assumes "10 \<notin> set a" and "10 \<notin> set b" and "10 \<notin> set c"
  shows "lines_of (a @ [10] @ b @ [10] @ c) = [a, b, c]"
  using assms by (simp add: lines_of_append lines_of_single)

text \<open>
  C7. For an event of type \<open>transaction\<close> (and a number text without line feeds), the
  body is the envelope header, a line feed, the item header \<open>{"type":"transaction"}\<close>, a
  line feed, and the serialization of the event after \<open>delete event.tracestate\<close>, which
  has no \<open>tracestate\<close> property. None of the three texts contains a line feed, so the
  body has exactly these three lines; it ends with \<open>}\<close>, not with a line feed. The
  envelope header carries the decoded tracestate as its \<open>trace\<close>.
  \<open>eventToSentryRequest\<close> gives the same request.
\<close>

theorem transaction_request_body:
  assumes "get_prop event (js ''type'') = JStr (js ''transaction'')"
    and "\<And>q. 10 \<notin> set (num q)"
  shows \<open>eventToSentryRequest g num sent_at event api = transactionToSentryRequest g num sent_at event api
    \<and> snd (transactionToSentryRequest g num sent_at event api) = delete_prop event (js ''tracestate'')
    \<and> js ''tracestate'' \<notin> fst ` set (delete_prop event (js ''tracestate''))
    \<and> body (fst (transactionToSentryRequest g num sent_at event api))
        = envelopeHeaders g num sent_at event @ [10] @ js ''{"type":"transaction"}'' @ [10]
          @ JSON_stringify num (delete_prop event (js ''tracestate''))
    \<and> lines_of (body (fst (transactionToSentryRequest g num sent_at event api)))
        = [envelopeHeaders g num sent_at event, js ''{"type":"transaction"}'',
           JSON_stringify num (delete_prop event (js ''tracestate''))]
    \<and> last (body (fst (transactionToSentryRequest g num sent_at event api))) \<noteq> 10
    \<and> envelopeHeaders g num sent_at event
        = JSON_stringify num
            [(js ''event_id'', get_prop event (js ''event_id'')),
             (js ''sent_at'', JStr sent_at),
             (js ''trace_id'',
                opt_chain (opt_chain (get_prop event (js ''contexts'')) (js ''trace''))
                  (js ''trace_id'')),
             (js ''trace'', tracestateJSON g event)]\<close>
proof -
  have t: "get_prop (delete_prop event (js ''tracestate'')) (js ''type'') = JStr (js ''transaction'')"
    using assms(1) by (simp add: get_prop_delete_prop type_not_tracestate)
  have i: \<open>itemHeaders num event = js ''{"type":"transaction"}''\<close>
    by (simp add: itemHeaders_def t item_header_transaction)
  have b: \<open>body (fst (transactionToSentryRequest g num sent_at event api))
        = envelopeHeaders g num sent_at event @ [10] @ js ''{"type":"transaction"}'' @ [10]
          @ JSON_stringify num (delete_prop event (js ''tracestate''))\<close>
    by (simp add: transactionToSentryRequest_def Let_def i)
  have n1: "10 \<notin> set (envelopeHeaders g num sent_at event)"
    unfolding envelopeHeaders_def Let_def by (rule JSON_stringify_no_nl) (rule assms(2))
  have n2: \<open>10 \<notin> set (js ''{"type":"transaction"}'')\<close>
    by (simp add: js_def)
  have n3: "10 \<notin> set (JSON_stringify num (delete_prop event (js ''tracestate'')))"
    by (rule JSON_stringify_no_nl) (rule assms(2))
  have l: "last (JSON_stringify num ps) = 125" for ps
    by (simp add: JSON_stringify_def)
  have "last (body (fst (transactionToSentryRequest g num sent_at event api))) = 125"
    unfolding b by (simp add: l JSON_stringify_def)
  then have e: "last (body (fst (transactionToSentryRequest g num sent_at event api))) \<noteq> 10"
    by simp
  have s: "snd (transactionToSentryRequest g num sent_at event api) = delete_prop event (js ''tracestate'')"
    by (simp add: transactionToSentryRequest_def Let_def)
  have q: "eventToSentryRequest g num sent_at event api = transactionToSentryRequest g num sent_at event api"
    using assms(1) by (simp add: eventToSentryRequest_def)
  have k: "js ''event_id'' \<noteq> js ''tracestate''" "js ''contexts'' \<noteq> js ''tracestate''"
    by (simp_all add: js_def)
  have h: "envelopeHeaders g num sent_at event
        = JSON_stringify num
            [(js ''event_id'', get_prop event (js ''event_id'')),
             (js ''sent_at'', JStr sent_at),
             (js ''trace_id'',
                opt_chain (opt_chain (get_prop event (js ''contexts'')) (js ''trace''))
                  (js ''trace_id'')),
             (js ''trace'', tracestateJSON g event)]"
    by (simp add: envelopeHeaders_def Let_def get_prop_delete_prop k)
  note l = three_lines [OF n1 n2 n3]
  show ?thesis
    using q s deleted_absent [of "js ''tracestate''" event] b l [folded b] e h
    by (intro conjI)
qed

text \<open>C7 at a transaction event under Node: the three lines of the body.\<close>

theorem transaction_request_body_witness:
  \<open>get_prop dogpark_event (js ''type'') = JStr (js ''transaction'')
   \<and> lines_of (body (fst (transactionToSentryRequest node_global zero_text dogpark_sent_at dogpark_event dogpark_api)))
       = [js ''{"event_id":"c0ffee","sent_at":"2020-11-03T12:00:00.000Z","trace_id":"12312012123120121231201212312012","trace":"park"}'',
          js ''{"type":"transaction"}'',
          js ''{"event_id":"c0ffee","contexts":{"trace":{"trace_id":"12312012123120121231201212312012"}},"start_timestamp":0,"transaction":"dogpark","type":"transaction"}'']\<close>
proof -
  have h1: "get_prop dogpark_event (js ''type'') = JStr (js ''transaction'')"
    by code_simp
  have h2: "\<And>q. 10 \<notin> set (zero_text q)"
    by (simp add: zero_text_def js_def)
  have e: \<open>envelopeHeaders node_global zero_text dogpark_sent_at dogpark_event
      = js ''{"event_id":"c0ffee","sent_at":"2020-11-03T12:00:00.000Z","trace_id":"12312012123120121231201212312012","trace":"park"}''\<close>
    by code_simp
  have b: \<open>JSON_stringify zero_text (delete_prop dogpark_event (js ''tracestate''))
      = js ''{"event_id":"c0ffee","contexts":{"trace":{"trace_id":"12312012123120121231201212312012"}},"start_timestamp":0,"transaction":"dogpark","type":"transaction"}''\<close>
    by code_simp
  note l = transaction_request_body [where g = node_global and num = zero_text and sent_at = dogpark_sent_at and api = dogpark_api,
      OF h1 h2, THEN conjunct2, THEN conjunct2, THEN conjunct2, THEN conjunct2, THEN conjunct1]
  show ?thesis
    using h1 l [unfolded e b] by (intro conjI)
qed

text \<open>
  C9. For an event whose type is not \<open>transaction\<close>, the body is the serialization of
  the event, a single line, the event keeps all its properties, and the url is the store
  url of the \<open>API\<close>; requests for transactions and sessions take its envelope url.
\<close>

theorem event_request_flat:
  assumes "get_prop event (js ''type'') \<noteq> JStr (js ''transaction'')"
    and "\<And>q. 10 \<notin> set (num q)"
  shows "body (fst (eventToSentryRequest g num sent_at event api)) = JSON_stringify num event
    \<and> lines_of (body (fst (eventToSentryRequest g num sent_at event api))) = [JSON_stringify num event]
    \<and> snd (eventToSentryRequest g num sent_at event api) = event
    \<and> url (fst (eventToSentryRequest g num sent_at event api)) = getStoreEndpointWithUrlEncodedAuth api
    \<and> url (fst (transactionToSentryRequest g num sent_at' event' api))
        = getEnvelopeEndpointWithUrlEncodedAuth api
    \<and> url (sessionToSentryRequest num sent_at' session api) = getEnvelopeEndpointWithUrlEncodedAuth api"
proof -
  have n: "10 \<notin> set (JSON_stringify num event)"
    by (rule JSON_stringify_no_nl) (rule assms(2))
  show ?thesis
    using assms(1) lines_of_single [OF n]
    by (simp add: eventToSentryRequest_def transactionToSentryRequest_def
        sessionToSentryRequest_def Let_def)
qed

text \<open>C9 at an error event: one line, sent to the store url, where the transaction event
  goes to the envelope url.\<close>

theorem event_request_flat_witness:
  \<open>get_prop error_event (js ''type'') \<noteq> JStr (js ''transaction'')
   \<and> lines_of (body (fst (eventToSentryRequest node_global zero_text dogpark_sent_at error_event dogpark_api)))
       = [js ''{"event_id":"c0ffee","message":"squirrel!"}'']
   \<and> url (fst (eventToSentryRequest node_global zero_text dogpark_sent_at error_event dogpark_api))
       = js ''https://squirrelchasers.ingest.sentry.io/api/12312012/store/''
   \<and> url (fst (transactionToSentryRequest node_global zero_text dogpark_sent_at dogpark_event dogpark_api))
       = js ''https://squirrelchasers.ingest.sentry.io/api/12312012/envelope/''\<close>
proof -
  have h1: "get_prop error_event (js ''type'') \<noteq> JStr (js ''transaction'')"
    by code_simp
  have h2: "\<And>q. 10 \<notin> set (zero_text q)"
    by (simp add: zero_text_def js_def)
  have b: \<open>JSON_stringify zero_text error_event = js ''{"event_id":"c0ffee","message":"squirrel!"}''\<close>
    by code_simp
  note t = event_request_flat [where g = node_global and num = zero_text and sent_at = dogpark_sent_at
      and api = dogpark_api and sent_at' = dogpark_sent_at and event' = dogpark_event, OF h1 h2]
  note l = t [THEN conjunct2, THEN conjunct1, unfolded b]
  note u = t [THEN conjunct2, THEN conjunct2, THEN conjunct2, THEN conjunct1]
  note e = t [THEN conjunct2, THEN conjunct2, THEN conjunct2, THEN conjunct2, THEN conjunct1]
  have s: "getStoreEndpointWithUrlEncodedAuth dogpark_api
      = js ''https://squirrelchasers.ingest.sentry.io/api/12312012/store/''"
    by (simp add: dogpark_api_def)
  have v: "getEnvelopeEndpointWithUrlEncodedAuth dogpark_api
      = js ''https://squirrelchasers.ingest.sentry.io/api/12312012/envelope/''"
    by (simp add: dogpark_api_def)
  show ?thesis
    using h1 l u [unfolded s] e [unfolded v] by (intro conjI)
qed

section \<open>Recovery from conversion failures\<close>

lemma ser_props_append: "ser_props num (ps @ qs) = ser_props num ps @ ser_props num qs"
proof (induction ps)
  case Nil
  show ?case by simp
next
  case (Cons p ps)
  obtain k v where p: "p = (k, v)" by (cases p)
  show ?case
    unfolding p using Cons by (cases "ser num v") simp_all
qed

lemma join_comma_snoc: "xs \<noteq> [] \<Longrightarrow> join_comma (xs @ [y]) = join_comma xs @ [44] @ y"
  by (induction xs rule: join_comma.induct) simp_all

lemma trace_property_text:
  \<open>ser_props num [(js ''trace'', JStr [])] = [js ''"trace":""'']\<close>
  by (simp add: QuoteJSONString_def js_def is_lead_surrogate_def is_trail_surrogate_def)

lemma envelope_trace_empty:
  assumes "tracestateJSON g event = JStr []"
  shows \<open>\<exists>pre. envelopeHeaders g num sent_at event = pre @ js '',"trace":""}''\<close>
proof -
  define ps where "ps =
    [(js ''event_id'', get_prop (delete_prop event (js ''tracestate'')) (js ''event_id'')),
     (js ''sent_at'', JStr sent_at),
     (js ''trace_id'',
        opt_chain (opt_chain (get_prop (delete_prop event (js ''tracestate'')) (js ''contexts''))
          (js ''trace'')) (js ''trace_id''))]"
  have ne: "ser_props num ps \<noteq> []"
    unfolding ps_def
    by (cases "ser num (get_prop (delete_prop event (js ''tracestate'')) (js ''event_id''))")
       simp_all
  have "envelopeHeaders g num sent_at event = JSON_stringify num (ps @ [(js ''trace'', JStr [])])"
    by (simp add: envelopeHeaders_def Let_def assms ps_def)
  also have \<open>\<dots> = [123] @ join_comma (ser_props num ps @ [js ''"trace":""'']) @ [125]\<close>
    by (simp only: JSON_stringify_def ser_props_append trace_property_text)
  also have \<open>\<dots> = ([123] @ join_comma (ser_props num ps)) @ js '',"trace":""}''\<close>
    by (simp add: join_comma_snoc [OF ne] js_def)
  finally show ?thesis by blast
qed

text \<open>
  C6. If \<open>unicodeToBase64\<close> throws while the tracestate is created, \<open>_getNewTracestate\<close>
  returns the empty string. If \<open>base64ToUnicode\<close> throws on \<open>event.tracestate\<close> while the
  envelope is assembled, the decoded tracestate is the empty string, the envelope header
  ends with \<open>"trace":""\<close>, and the request is produced with its header, item header and
  event. Both functions are total here: each \<open>throw\<close> of the source is a value that the
  \<open>catch\<close> turns into the empty string.
\<close>

theorem conversion_failure_recovered:
  \<open>(getClient h = Some cl \<and> getDsn cl = Some d
      \<and> unicodeToBase64 g (dataStr num cl d tid) = Inl err
     \<longrightarrow> getNewTracestate g num h tid = Some [])
   \<and> (get_prop event (js ''tracestate'') = JStr s \<and> s \<noteq> []
        \<and> base64ToUnicode g (replace_first_dot s) = Inl err'
     \<longrightarrow> tracestateJSON g event = JStr []
         \<and> (\<exists>pre. envelopeHeaders g num sent_at event = pre @ js '',"trace":""}'')
         \<and> body (fst (transactionToSentryRequest g num sent_at event api))
             = envelopeHeaders g num sent_at event @ [10] @ itemHeaders num event @ [10]
               @ JSON_stringify num (delete_prop event (js ''tracestate'')))\<close>
proof (intro conjI impI)
  assume "getClient h = Some cl \<and> getDsn cl = Some d
      \<and> unicodeToBase64 g (dataStr num cl d tid) = Inl err"
  then show "getNewTracestate g num h tid = Some []"
    by (simp add: getNewTracestate_def)
next
  assume a: "get_prop event (js ''tracestate'') = JStr s \<and> s \<noteq> []
        \<and> base64ToUnicode g (replace_first_dot s) = Inl err'"
  then show t: "tracestateJSON g event = JStr []"
    by (simp add: tracestateJSON_def)
  show \<open>\<exists>pre. envelopeHeaders g num sent_at event = pre @ js '',"trace":""}''\<close>
    by (rule envelope_trace_empty) (rule t)
  show "body (fst (transactionToSentryRequest g num sent_at event api))
             = envelopeHeaders g num sent_at event @ [10] @ itemHeaders num event @ [10]
               @ JSON_stringify num (delete_prop event (js ''tracestate''))"
    by (simp add: transactionToSentryRequest_def Let_def)
qed

text \<open>
  C6 where the global object offers neither \<open>btoa\<close> nor \<open>Buffer\<close>, so that encoding throws,
  and at an event whose tracestate is no base64, so that decoding throws: the new
  tracestate is the empty string, and the request has its three lines, the header with
  \<open>"trace":""\<close>.
\<close>

theorem conversion_failure_recovered_witness:
  \<open>unicodeToBase64 bare_global dogpark_dataStr
     = Inl (SentryError (errMsg_text (js ''Unable to convert string to base64: '') dogpark_dataStr) None)
   \<and> getNewTracestate bare_global zero_text dogpark_hub dogpark_trace_id = Some []
   \<and> base64ToUnicode node_global (replace_first_dot (js ''doGsaREgReaT==''))
     = Inl (SentryError
         (js ''Unable to convert from base64. Input either isn't a string or isn't valid base64.'') None)
   \<and> tracestateJSON node_global inherited_event = JStr []
   \<and> lines_of (body (fst (transactionToSentryRequest node_global zero_text dogpark_sent_at
         inherited_event dogpark_api)))
     = [js ''{"event_id":"c0ffee","sent_at":"2020-11-03T12:00:00.000Z","trace":""}'',
        js ''{"type":"transaction"}'',
        js ''{"event_id":"c0ffee","type":"transaction"}'']\<close>
proof -
  have e: "unicodeToBase64 bare_global dogpark_dataStr
     = Inl (SentryError (errMsg_text (js ''Unable to convert string to base64: '') dogpark_dataStr) None)"
    by (simp add: unicodeToBase64_def bare_global_def)
  have c: "getClient dogpark_hub = Some dogpark_client \<and> getDsn dogpark_client = Some dogpark_dsn"
    by (simp add: dogpark_hub_def dogpark_client_def)
  have p: "get_prop inherited_event (js ''tracestate'') = JStr (js ''doGsaREgReaT=='')"
    by code_simp
  have n: "js ''doGsaREgReaT=='' \<noteq> []"
    by (simp add: js_def)
  have r: "\<not> BASE64_REGEX_test (replace_first_dot (js ''doGsaREgReaT==''))"
    by code_simp
  have d: "base64ToUnicode node_global (replace_first_dot (js ''doGsaREgReaT==''))
     = Inl (SentryError
         (js ''Unable to convert from base64. Input either isn't a string or isn't valid base64.'') None)"
    using r by (simp add: base64ToUnicode_def)
  have l: \<open>lines_of (body (fst (transactionToSentryRequest node_global zero_text dogpark_sent_at
         inherited_event dogpark_api)))
     = [js ''{"event_id":"c0ffee","sent_at":"2020-11-03T12:00:00.000Z","trace":""}'',
        js ''{"type":"transaction"}'',
        js ''{"event_id":"c0ffee","type":"transaction"}'']\<close>
    by code_simp
  note t = conversion_failure_recovered [where g = bare_global and num = zero_text
      and h = dogpark_hub and cl = dogpark_client and d = dogpark_dsn and tid = dogpark_trace_id,
      THEN conjunct1, rule_format, OF conjI [OF c [THEN conjunct1] conjI [OF c [THEN conjunct2]
        e [unfolded dogpark_dataStr_def]]]]
  note u = conversion_failure_recovered [where g = node_global and event = inherited_event,
      THEN conjunct2, rule_format, OF conjI [OF p conjI [OF n d]], THEN conjunct1]
  show ?thesis
    using e t d u l by (intro conjI)
qed

section \<open>The tracestate of a new transaction\<close>

text \<open>
  C10. The \<open>tracestate\<close> of a constructed transaction is never empty: it is the
  context's tracestate when that is a non-empty string; otherwise the value of
  \<open>_getNewTracestate\<close> when that is a non-empty string; otherwise (no client, no dsn, or
  a failed encoding) the literal \<open>things are broken\<close>.
\<close>

theorem tracestate_nonempty:
  "(let T = Transaction_new g num now fresh_trace fresh_span c given current;
        fresh = getNewTracestate g num (case given of None \<Rightarrow> current | Some x \<Rightarrow> x)
                  (case ctx_traceId c of None \<Rightarrow> fresh_trace | Some i \<Rightarrow> i)
    in tracestate T \<noteq> []
       \<and> (\<forall>ts. ctx_tracestate c = Some ts \<and> ts \<noteq> [] \<longrightarrow> tracestate T = ts)
       \<and> (ctx_tracestate c = None \<or> ctx_tracestate c = Some [] \<longrightarrow>
            (\<forall>v. fresh = Some v \<and> v \<noteq> [] \<longrightarrow> tracestate T = v)
            \<and> (fresh = None \<or> fresh = Some [] \<longrightarrow> tracestate T = js ''things are broken'')))"
proof -
  have b: "js ''things are broken'' \<noteq> []"
    by (simp add: js_def)
  have s: "str_or a x \<noteq> []" if "x \<noteq> []" for a x
    using that by (simp add: str_or_def split: option.splits)
  show ?thesis
    unfolding Let_def
    using s [OF s [OF b]]
    by (auto simp: Transaction_new_def Let_def span.defs transaction.defs Span_new_def str_or_def)
qed

text \<open>
  C10 at the three cases: the context of the first test brings its own tracestate; the
  context of the sampling test brings none and the fresh encoding is taken; where encoding
  throws, the fallback is taken.
\<close>

theorem tracestate_nonempty_witness:
  "tracestate (Transaction_new node_global zero_text 0 dogpark_trace_id (js ''1121201211212012'')
       inherited_context None dogpark_hub) = js ''doGsaREgReaT==''
   \<and> getNewTracestate node_global zero_text dogpark_hub dogpark_trace_id
       = Some (replace_padding (Buffer_utf16le_to_base64 dogpark_dataStr))
   \<and> replace_padding (Buffer_utf16le_to_base64 dogpark_dataStr) \<noteq> []
   \<and> tracestate (Transaction_new node_global zero_text 0 dogpark_trace_id (js ''1121201211212012'')
       dogpark_context None dogpark_hub) = replace_padding (Buffer_utf16le_to_base64 dogpark_dataStr)
   \<and> getNewTracestate bare_global zero_text dogpark_hub dogpark_trace_id = Some []
   \<and> tracestate (Transaction_new bare_global zero_text 0 dogpark_trace_id (js ''1121201211212012'')
       dogpark_context None dogpark_hub) = js ''things are broken''"
proof -
  have i: "ctx_tracestate inherited_context = Some (js ''doGsaREgReaT=='') \<and> js ''doGsaREgReaT=='' \<noteq> []"
    by (simp add: inherited_context_def js_def)
  have n: "ctx_tracestate dogpark_context = None \<or> ctx_tracestate dogpark_context = Some []"
    by (simp add: dogpark_context_def)
  have t: "ctx_traceId dogpark_context = None"
    by (simp add: dogpark_context_def)
  have e: "getNewTracestate bare_global zero_text dogpark_hub dogpark_trace_id = Some []"
    by (simp add: getNewTracestate_def dogpark_hub_def dogpark_client_def unicodeToBase64_def
        bare_global_def)
  note a = tracestate_nonempty [where g = node_global and num = zero_text and now = 0
      and fresh_trace = dogpark_trace_id and fresh_span = "js ''1121201211212012''"
      and c = inherited_context and given = None and current = dogpark_hub,
      unfolded Let_def, THEN conjunct2, THEN conjunct1, rule_format, OF i]
  note b = tracestate_nonempty [where g = node_global and num = zero_text and now = 0
      and fresh_trace = dogpark_trace_id and fresh_span = "js ''1121201211212012''"
      and c = dogpark_context and given = None and current = dogpark_hub,
      unfolded Let_def, THEN conjunct2, THEN conjunct2, rule_format, OF n, THEN conjunct1,
      rule_format, of "replace_padding (Buffer_utf16le_to_base64 dogpark_dataStr)"]
  note c = tracestate_nonempty [where g = bare_global and num = zero_text and now = 0
      and fresh_trace = dogpark_trace_id and fresh_span = "js ''1121201211212012''"
      and c = dogpark_context and given = None and current = dogpark_hub,
      unfolded Let_def, THEN conjunct2, THEN conjunct2, rule_format, OF n, THEN conjunct2,
      rule_format]
  have b': "tracestate (Transaction_new node_global zero_text 0 dogpark_trace_id (js ''1121201211212012'')
       dogpark_context None dogpark_hub) = replace_padding (Buffer_utf16le_to_base64 dogpark_dataStr)"
    using b dogpark_getNewTracestate dogpark_tracestate_rejected(1) by (simp add: t)
  have c': "tracestate (Transaction_new bare_global zero_text 0 dogpark_trace_id (js ''1121201211212012'')
       dogpark_context None dogpark_hub) = js ''things are broken''"
    using c e by (simp add: t)
  show ?thesis
    using a dogpark_getNewTracestate dogpark_tracestate_rejected(1) b' e c' by (intro conjI)
qed

end
